theory Spec2Isabelle
  imports Complex_Main "HOL-Library.Multiset"
begin

section \<open>Values of the data frames\<close>

text \<open>
  The notebook \<^verbatim>\<open>Analysis.py\<close> keeps its tables in pandas data frames. A float cell
  is either a finite number, one of the two infinities, or NaN; pandas uses NaN for a
  missing (null) value of a numeric column. Finite values are kept exact here (the
  rounding of a finite quotient to 64 bits is not modelled), and there is one zero.
  A Python \<^verbatim>\<open>str\<close> is a \<^typ>\<open>string\<close> whose characters stand for the code points
  below 256.
\<close>

datatype float64 = Fin rat | PInf | NInf | NaN

datatype error = KeyError | OverflowError | NotScalar

fun is_inf :: "float64 \<Rightarrow> bool" where
  "is_inf PInf = True"
| "is_inf NInf = True"
| "is_inf _ = False"

fun is_fin :: "float64 \<Rightarrow> bool" where
  "is_fin (Fin _) = True"
| "is_fin _ = False"

text \<open>
  True division \<^verbatim>\<open>a / b\<close> of two numeric cells, as numpy computes it: no exception, a
  zero divisor gives an infinity of the sign of the dividend, and \<^verbatim>\<open>0 / 0\<close> gives NaN.
\<close>

fun true_div :: "float64 \<Rightarrow> float64 \<Rightarrow> float64" where
  "true_div NaN _ = NaN"
| "true_div _ NaN = NaN"
| "true_div (Fin a) (Fin b) =
     (if b = 0 then (if a = 0 then NaN else if 0 < a then PInf else NInf)
      else Fin (a / b))"
| "true_div (Fin a) _ = Fin 0"
| "true_div PInf (Fin b) = (if b < 0 then NInf else PInf)"
| "true_div NInf (Fin b) = (if b < 0 then PInf else NInf)"
| "true_div _ _ = NaN"

definition of_int64 :: "int \<Rightarrow> float64" where
  \<comment> \<open>an integer column read as a float operand\<close>
  "of_int64 n = Fin (of_int n)"

definition replace_inf :: "float64 \<Rightarrow> float64" where
  \<comment> \<open>\<^verbatim>\<open>.replace([np.inf, -np.inf], 0)\<close> on one cell\<close>
  "replace_inf v = (if v = PInf \<or> v = NInf then Fin 0 else v)"

section \<open>The tables\<close>

text \<open>
  The columns of \<^verbatim>\<open>us_data\<close> after In[31], and with the three rates of In[34]. Its
  numeric cells can be null.
\<close>

record us_row =
  STATE :: string
  TOTALCASES :: float64
  TOTALDEATHS :: float64
  TOTALRECOVERED :: float64
  ACTIVECASES :: float64
  TOTCASES_PER_1M :: float64
  DEATH_PER_1M :: float64
  TOTALTESTS :: float64
  TESTS_PER_1M :: float64
  POPULATION :: float64

record us_rate_row = us_row +
  DEATH_RATE :: float64
  SURVIVAL_RATE :: float64
  PERCENT_TESTS_POSITIVE :: float64

text \<open>
  The columns of \<^verbatim>\<open>global_data\<close> after In[12] (columns 1 to 10 are integers by then),
  and the columns that In[19], In[20], In[25] and In[26] add. A record addresses a column
  by its name; the position of a column in the frame is not modelled.
\<close>

record world_row =
  COUNTRY :: string
  TOTALCASES :: int
  TOTALDEATHS :: int
  TOTALRECOVERED :: int
  ACTIVECASES :: int
  SERIOUS_CRITICAL :: int
  TOTCASES_PER_1M :: int
  DEATH_PER_1M :: int
  TOTALTESTS :: int
  TESTS_PER_1M :: int
  POPULATION :: int
  CONTINENT :: string

record gdp_world_row = world_row +
  GDP_PER_CAPITA :: float64

record rate_world_row = gdp_world_row +
  DEATH_RATE :: float64
  SURVIVAL_RATE :: float64
  PERCENT_TESTS_POSITIVE :: float64

record area_world_row = rate_world_row +
  LAND_AREA :: float64

record global_row = area_world_row +
  POPULATION_DENSITY :: float64

text \<open>An auxiliary table (GDP, land area) is a list of rows (COUNTRY, value).\<close>

type_synonym aux_table = "(string \<times> float64) list"

section \<open>Cell cleaning (cells In[6] and In[29])\<close>

text \<open>
  \<^verbatim>\<open>
  global_data=global_data.replace('\n','', regex=True)
  global_data=global_data.replace(',','', regex=True)
  global_data = global_data.applymap(lambda x: x.strip('+'))
  \<close>
  and the same three lines for \<^verbatim>\<open>us_data\<close>. Every cell is still a string here.
\<close>

definition remove_char :: "char \<Rightarrow> string \<Rightarrow> string" where
  \<comment> \<open>\<^verbatim>\<open>replace(c, '', regex=True)\<close>: every occurrence goes\<close>
  "remove_char c s = filter (\<lambda>x. x \<noteq> c) s"

definition strip_chars :: "(char \<Rightarrow> bool) \<Rightarrow> string \<Rightarrow> string" where
  \<comment> \<open>Python's \<^verbatim>\<open>str.strip\<close>: the characters go from both ends\<close>
  "strip_chars P s = rev (dropWhile P (rev (dropWhile P s)))"

definition strip_plus :: "string \<Rightarrow> string" where
  \<comment> \<open>\<^verbatim>\<open>x.strip('+')\<close>\<close>
  "strip_plus s = strip_chars (\<lambda>c. c = CHR ''+'') s"

definition isspace :: "char \<Rightarrow> bool" where
  \<comment> \<open>\<^verbatim>\<open>str.isspace\<close> on the code points below 256\<close>
  "isspace c = (of_char c \<in> {9, 10, 11, 12, 13, 28, 29, 30, 31, 32, 133, 160 :: nat})"

definition strip_ws :: "string \<Rightarrow> string" where
  \<comment> \<open>\<^verbatim>\<open>.str.strip()\<close> on one cell\<close>
  "strip_ws s = strip_chars isspace s"

definition clean_cell :: "string \<Rightarrow> string" where
  "clean_cell s = strip_plus (remove_char (CHR '','') (remove_char (CHR 0x0A) s))"

definition spec_clean_cell :: "string \<Rightarrow> string" where
  \<comment> \<open>the cleaning as the specification words it: newlines, commas, leading plus signs,
      then surrounding whitespace\<close>
  "spec_clean_cell s =
     strip_ws (dropWhile (\<lambda>c. c = CHR ''+'')
       (remove_char (CHR '','') (remove_char (CHR 0x0A) s)))"

section \<open>Numeric coercion (cells In[12] and In[33])\<close>

text \<open>
  \<^verbatim>\<open>pd.to_numeric\<close> is library code, so the coercions take the parser as an argument
  \<open>p\<close>: \<open>p s\<close> is the value of \<^verbatim>\<open>pd.to_numeric(s, errors='coerce')\<close>, NaN when the
  text does not parse. The properties below hold for every parser.
  \<open>to_numeric\<close> is the instance used to evaluate concrete cells: it gives the library's
  result on an unsigned digit string, on \<^verbatim>\<open>inf\<close> and \<^verbatim>\<open>-inf\<close>, and on text that
  is no number at all (the empty cell, \<^verbatim>\<open>N/A\<close>); it is not meant for the other numeric
  spellings (signs, fractions, exponents).
\<close>

definition is_digit :: "char \<Rightarrow> bool" where
  "is_digit c = (48 \<le> (of_char c :: nat) \<and> (of_char c :: nat) \<le> 57)"

definition digits_val :: "string \<Rightarrow> nat" where
  "digits_val s = foldl (\<lambda>n c. 10 * n + (of_char c - 48)) 0 s"

definition to_numeric :: "string \<Rightarrow> float64" where
  "to_numeric s =
     (if s \<noteq> [] \<and> list_all is_digit s then Fin (of_nat (digits_val s))
      else if s = ''inf'' then PInf
      else if s = ''-inf'' then NInf
      else NaN)"

definition py_int :: "rat \<Rightarrow> int" where
  \<comment> \<open>Python's \<^verbatim>\<open>int(x)\<close> on a finite float: truncation towards zero\<close>
  "py_int r = (if 0 \<le> r then \<lfloor>r\<rfloor> else \<lceil>r\<rceil>)"

text \<open>
  \<^verbatim>\<open>
  global_data[cols] = global_data[cols].apply(pd.to_numeric, errors='coerce', axis=1)
  global_data.fillna(0, inplace=True)
  global_data.replace(np.nan, 0, inplace=True)
  global_data.replace(np.inf, 0, inplace=True)
  for col in global_data.columns[1:11]:
      global_data[col]=global_data[col].apply(int)
  \<close>
  Only the positive infinity is replaced; \<^verbatim>\<open>int(-inf)\<close> raises OverflowError.
\<close>

definition fillna0 :: "float64 \<Rightarrow> float64" where
  "fillna0 v = (if v = NaN then Fin 0 else v)"

definition replace_posinf0 :: "float64 \<Rightarrow> float64" where
  "replace_posinf0 v = (if v = PInf then Fin 0 else v)"

fun apply_int :: "float64 \<Rightarrow> error + int" where
  "apply_int (Fin r) = Inr (py_int r)"
| "apply_int _ = Inl OverflowError"

definition coerce_global :: "(string \<Rightarrow> float64) \<Rightarrow> string \<Rightarrow> error + int" where
  "coerce_global p s = apply_int (replace_posinf0 (fillna0 (fillna0 (p s))))"

text \<open>
  \<^verbatim>\<open>
  us_data[cols] = us_data[cols].apply(pd.to_numeric, errors='coerce', axis=1)
  for col in us_data.columns[1:]:
      us_data[col]=pd.Series(us_data[col], dtype=int)
  \<close>
  There is no \<^verbatim>\<open>fillna\<close> here. The cast of a whole column to \<^verbatim>\<open>int\<close> is done when
  every value of the column is finite, and the column is left as it is otherwise: the
  next cell of the notebook lists the states whose cells are still null.
\<close>

definition coerce_us_column :: "(string \<Rightarrow> float64) \<Rightarrow> string list \<Rightarrow> float64 list" where
  "coerce_us_column p col =
     (let vs = map p col
      in if list_all is_fin vs
         then map (\<lambda>v. case v of Fin r \<Rightarrow> Fin (of_int (py_int r)) | _ \<Rightarrow> v) vs
         else vs)"

section \<open>Key reconciliation (cells In[10], In[18] and In[25])\<close>

text \<open>
  \<^verbatim>\<open>
  global_data.COUNTRY= global_data.COUNTRY.replace("USA","United States")
  global_data.COUNTRY= global_data.COUNTRY.replace("UK","United Kingdom")
  \<close>
  and sixteen such lines for \<^verbatim>\<open>country_area.COUNTRY\<close>. \<^verbatim>\<open>Series.replace\<close> with two
  strings rewrites the cells that are equal to the first one. The lines run one after
  the other, so a table is applied as a fold over its entries in source order.
\<close>

definition replace_value :: "string \<Rightarrow> string \<Rightarrow> string \<Rightarrow> string" where
  "replace_value old new x = (if x = old then new else x)"

definition apply_aliases :: "(string \<times> string) list \<Rightarrow> string \<Rightarrow> string" where
  "apply_aliases al x = fold (\<lambda>(old, new). replace_value old new) al x"

definition global_aliases :: "(string \<times> string) list" where
  "global_aliases = [(''USA'', ''United States''), (''UK'', ''United Kingdom'')]"

definition area_aliases :: "(string \<times> string) list" where
  "area_aliases =
    [(''United Arab Emirates'', ''UAE''),
     (''State of Palestine'', ''Palestine''),
     (''Republic of North Macedonia'', ''North Macedonia''),
     (''South Korea'', ''S. Korea''),
     (''C'' @ [CHR 0xF4] @ ''te d'Ivoire'', ''Ivory Coast''),
     (''DR Congo'', ''DRC''),
     (''China Hong Kong SAR'', ''Hong Kong''),
     (''Central African Republic'', ''CAR''),
     (''Turks and Caicos Islands'', ''Turks and Caicos''),
     (''Saint Vincent and the Grenadines'', ''St. Vincent Grenadines''),
     (''Saint Barth'' @ [CHR 0xE9] @ ''lemy'', ''St. Barth''),
     (''Brunei Darussalam'', ''Brunei''),
     (''Wallis and Futuna Islands'', ''Wallis and Futuna''),
     (''China Macao SAR'', ''Macao''),
     (''Holy See'', ''Vatican City''),
     (''Saint Pierre and Miquelon'', ''Saint Pierre Miquelon'')]"

text \<open>
  The whitespace of the key columns is stripped in In[25], long after the aliases were
  applied and just before the land-area merge:
  \<^verbatim>\<open>
  global_data.COUNTRY = global_data.COUNTRY.str.strip()
  country_area.COUNTRY = country_area.COUNTRY.str.strip()
  \<close>
  So the key under which a name of \<^verbatim>\<open>country_area\<close> (of \<^verbatim>\<open>global_data\<close>) takes part
  in that merge is the following.
\<close>

definition area_key :: "string \<Rightarrow> string" where
  "area_key name = strip_ws (apply_aliases area_aliases name)"

definition global_key :: "string \<Rightarrow> string" where
  "global_key name = strip_ws (apply_aliases global_aliases name)"

definition spec_reconcile :: "(string \<times> string) list \<Rightarrow> string \<Rightarrow> string" where
  \<comment> \<open>the reconciler as the specification words it: strip first, then one exact lookup
      in the alias table, the stripped name itself when there is no entry\<close>
  "spec_reconcile al name =
     (let n = strip_ws name in case map_of al n of Some c \<Rightarrow> c | None \<Rightarrow> n)"

section \<open>Left merge on the key\<close>

text \<open>
  \<^verbatim>\<open>base.merge(aux, on='COUNTRY', how='left')\<close>: the rows of the base in their order,
  each one once for every auxiliary row with the same key (in the order of the auxiliary
  table), or once with nulls when no auxiliary row has its key. The result pairs the
  base row with the auxiliary row, \<open>None\<close> standing for the nulls.
\<close>

definition merge_left ::
  "('a \<Rightarrow> 'k) \<Rightarrow> ('b \<Rightarrow> 'k) \<Rightarrow> 'a list \<Rightarrow> 'b list \<Rightarrow> ('a \<times> 'b option) list" where
  "merge_left kl kr left right =
     concat (map (\<lambda>l. case filter (\<lambda>r. kr r = kl l) right of
                          [] \<Rightarrow> [(l, None)]
                        | m # ms \<Rightarrow> map (\<lambda>r. (l, Some r)) (m # ms)) left)"

text \<open>The rows that one base row contributes to the merge.\<close>

definition join_row :: "('a \<Rightarrow> 'k) \<Rightarrow> ('b \<Rightarrow> 'k) \<Rightarrow> 'b list \<Rightarrow> 'a \<Rightarrow> ('a \<times> 'b option) list" where
  "join_row kl kr right l =
     (case filter (\<lambda>r. kr r = kl l) right of
        [] \<Rightarrow> [(l, None)]
      | m # ms \<Rightarrow> map (\<lambda>r. (l, Some r)) (m # ms))"

definition aux_value :: "(string \<times> float64) option \<Rightarrow> float64" where
  \<comment> \<open>the cell of the auxiliary column in a merged row\<close>
  "aux_value m = (case m of None \<Rightarrow> NaN | Some (k, v) \<Rightarrow> v)"

section \<open>The global table from In[13] to In[57]\<close>

text \<open>
  \<^verbatim>\<open>global_data = global_data.sort_values(['TOTALCASES'], ascending= False)\<close>.
  The library does not fix the order of rows with equal TOTALCASES; the model keeps them
  in their former order.
\<close>

definition sort_values_desc :: "world_row list \<Rightarrow> world_row list" where
  "sort_values_desc t = sort_key (\<lambda>r. - TOTALCASES r) t"

text \<open>A table is in non-increasing order of the column \<open>f\<close>.\<close>

abbreviation desc :: "('a \<Rightarrow> int) \<Rightarrow> 'a list \<Rightarrow> bool" where
  "desc f xs \<equiv> sorted_wrt (\<lambda>a b. f b \<le> f a) xs"

text \<open>In[19]: \<^verbatim>\<open>global_data = global_data.merge(country_gdp, on='COUNTRY', how='left')\<close>\<close>

definition merge_country_gdp :: "aux_table \<Rightarrow> world_row list \<Rightarrow> gdp_world_row list" where
  "merge_country_gdp country_gdp t =
     map (\<lambda>(r, m). world_row.extend r (gdp_world_row.fields (aux_value m)))
       (merge_left COUNTRY fst t country_gdp)"

text \<open>
  In[20]:
  \<^verbatim>\<open>
  global_data['DEATH_RATE'] = global_data.TOTALDEATHS / global_data.TOTALCASES
  global_data['SURVIVAL_RATE'] = global_data.TOTALRECOVERED / global_data.TOTALCASES
  global_data['PERCENT_TESTS_POSITIVE'] = global_data.TOTALCASES / global_data.TOTALTESTS
  global_data = global_data.replace([np.inf, -np.inf], 0)
  \<close>
  The replacement runs over the whole frame, so over the GDP column too.
\<close>

definition assign_rates :: "gdp_world_row \<Rightarrow> rate_world_row" where
  "assign_rates r =
     gdp_world_row.extend r (rate_world_row.fields
       (true_div (of_int64 (TOTALDEATHS r)) (of_int64 (TOTALCASES r)))
       (true_div (of_int64 (TOTALRECOVERED r)) (of_int64 (TOTALCASES r)))
       (true_div (of_int64 (TOTALCASES r)) (of_int64 (TOTALTESTS r))))"

definition replace_inf_row :: "rate_world_row \<Rightarrow> rate_world_row" where
  "replace_inf_row r =
     r\<lparr>GDP_PER_CAPITA := replace_inf (GDP_PER_CAPITA r),
       DEATH_RATE := replace_inf (DEATH_RATE r),
       SURVIVAL_RATE := replace_inf (SURVIVAL_RATE r),
       PERCENT_TESTS_POSITIVE := replace_inf (PERCENT_TESTS_POSITIVE r)\<rparr>"

definition add_rates :: "gdp_world_row \<Rightarrow> rate_world_row" where
  "add_rates r = replace_inf_row (assign_rates r)"


definition remerge_gdp :: "aux_table \<Rightarrow> rate_world_row list \<Rightarrow> rate_world_row list" where
  "remerge_gdp gdp_df_update t =
     map (\<lambda>(r, m). r\<lparr>GDP_PER_CAPITA := aux_value m\<rparr>)
       (merge_left COUNTRY fst t gdp_df_update)"


text \<open>
  \<^verbatim>\<open>
  global_data = global_data.set_index('COUNTRY')
  global_data = global_data.drop(['Diamond Princess','MS Zaandam'], axis = 0).reset_index()
  \<close>
  \<^verbatim>\<open>drop\<close> raises KeyError when one of the labels is not in the index, and removes
  every row that carries one of them.
\<close>

definition drop_labels :: "string list \<Rightarrow> ('a \<Rightarrow> string) \<Rightarrow> 'a list \<Rightarrow> error + 'a list" where
  "drop_labels labels key t =
     (if list_all (\<lambda>l. l \<in> set (map key t)) labels
      then Inr (filter (\<lambda>r. key r \<notin> set labels) t)
      else Inl KeyError)"

definition ships :: "string list" where
  "ships = [''Diamond Princess'', ''MS Zaandam'']"

definition drop_ships :: "rate_world_row list \<Rightarrow> error + rate_world_row list" where
  "drop_ships t = drop_labels ships COUNTRY t"

text \<open>
  In[25] strips both key columns and merges the land area; \<open>country_area\<close> is the table
  as In[18] left it. In[26]:
  \<^verbatim>\<open>global_data['POPULATION_DENSITY'] = global_data.POPULATION / global_data.LAND_AREA\<close>
\<close>

definition alias_country_area :: "aux_table \<Rightarrow> aux_table" where
  \<comment> \<open>In[18] on the whole table\<close>
  "alias_country_area area = map (\<lambda>(k, v). (apply_aliases area_aliases k, v)) area"

definition strip_country :: "rate_world_row list \<Rightarrow> rate_world_row list" where
  "strip_country t = map (\<lambda>r. r\<lparr>COUNTRY := strip_ws (COUNTRY r)\<rparr>) t"

text \<open>A row of the cleaned table with its key stripped as In[25] strips it.\<close>

definition strip_key :: "world_row \<Rightarrow> world_row" where
  "strip_key r = r\<lparr>COUNTRY := strip_ws (COUNTRY r)\<rparr>"

definition merge_country_area :: "aux_table \<Rightarrow> rate_world_row list \<Rightarrow> area_world_row list" where
  "merge_country_area country_area t =
     map (\<lambda>(r, m). rate_world_row.extend r (area_world_row.fields (aux_value m)))
       (merge_left COUNTRY fst (strip_country t) (map (\<lambda>(k, v). (strip_ws k, v)) country_area))"

definition add_density :: "area_world_row \<Rightarrow> global_row" where
  "add_density r =
     area_world_row.extend r (global_row.fields
       (true_div (of_int64 (POPULATION r)) (LAND_AREA r)))"

definition global_pipeline ::
  "aux_table \<Rightarrow> aux_table \<Rightarrow> aux_table \<Rightarrow> world_row list \<Rightarrow> error + global_row list" where
  "global_pipeline country_gdp gdp_df_update country_area t =
     (case drop_ships (remerge_gdp gdp_df_update
             (map add_rates (merge_country_gdp country_gdp (sort_values_desc t)))) of
        Inl e \<Rightarrow> Inl e
      | Inr t' \<Rightarrow> Inr (map add_density (merge_country_area country_area t')))"

definition top_cases :: "global_row list \<Rightarrow> global_row list" where
  \<comment> \<open>In[57]: \<^verbatim>\<open>top_cases = global_data[:10]\<close>\<close>
  "top_cases global_data = take 10 global_data"

definition spec_drop_after_merges ::
  "aux_table \<Rightarrow> aux_table \<Rightarrow> aux_table \<Rightarrow> world_row list \<Rightarrow> error + global_row list" where
  \<comment> \<open>the same steps with the exclusion as the specification places it, after the last
      merge\<close>
  "spec_drop_after_merges country_gdp gdp_df_update country_area t =
     drop_labels ships COUNTRY
       (map add_density (merge_country_area country_area
         (remerge_gdp gdp_df_update
           (map add_rates (merge_country_gdp country_gdp (sort_values_desc t))))))"

section \<open>The US table: rates (In[34]) and the repair of eight states (In[52] to In[54])\<close>

text \<open>
  \<^verbatim>\<open>
  us_data['DEATH_RATE'] = us_data.TOTALDEATHS / us_data.TOTALCASES
  us_data['SURVIVAL_RATE'] = us_data.TOTALRECOVERED / us_data.TOTALCASES
  us_data['PERCENT_TESTS_POSITIVE'] = us_data.TOTALCASES / us_data.TOTALTESTS
  #us_data = us_data.replace([np.inf, -np.inf], 0)
  \<close>
\<close>

definition us_add_rates :: "us_row \<Rightarrow> us_rate_row" where
  "us_add_rates r =
     us_row.extend r (us_rate_row.fields
       (true_div (us_row.TOTALDEATHS r) (us_row.TOTALCASES r))
       (true_div (us_row.TOTALRECOVERED r) (us_row.TOTALCASES r))
       (true_div (us_row.TOTALCASES r) (us_row.TOTALTESTS r)))"

text \<open>
  After \<^verbatim>\<open>us_data=us_data.set_index('STATE')\<close> the cells are written with
  \<^verbatim>\<open>us_data.at[state, column] = value\<close>, which writes the rows labelled \<open>state\<close> and, when
  there is none, appends a row that is null in the other columns. Reading
  \<^verbatim>\<open>us_data.at[state, column]\<close> gives a scalar when the label is there once; it raises
  KeyError when it is absent, and gives a Series, which this model of scalars does
  not follow (\<open>NotScalar\<close>), when the label is repeated.
\<close>

definition null_row :: "string \<Rightarrow> us_rate_row" where
  "null_row label =
     \<lparr>STATE = label, us_row.TOTALCASES = NaN, us_row.TOTALDEATHS = NaN,
      us_row.TOTALRECOVERED = NaN, us_row.ACTIVECASES = NaN,
      us_row.TOTCASES_PER_1M = NaN, us_row.DEATH_PER_1M = NaN,
      us_row.TOTALTESTS = NaN, us_row.TESTS_PER_1M = NaN, us_row.POPULATION = NaN,
      us_rate_row.DEATH_RATE = NaN, us_rate_row.SURVIVAL_RATE = NaN,
      us_rate_row.PERCENT_TESTS_POSITIVE = NaN\<rparr>"

definition at_set ::
  "string \<Rightarrow> (us_rate_row \<Rightarrow> us_rate_row) \<Rightarrow> us_rate_row list \<Rightarrow> us_rate_row list" where
  "at_set label write t =
     (if label \<in> set (map STATE t)
      then map (\<lambda>r. if STATE r = label then write r else r) t
      else t @ [write (null_row label)])"

definition at_get ::
  "string \<Rightarrow> (us_rate_row \<Rightarrow> float64) \<Rightarrow> us_rate_row list \<Rightarrow> error + float64" where
  "at_get label column t =
     (case filter (\<lambda>r. STATE r = label) t of
        [] \<Rightarrow> Inl KeyError
      | [r] \<Rightarrow> Inr (column r)
      | _ \<Rightarrow> Inl NotScalar)"

text \<open>
  One block of In[54], for a state with its scraped values:
  \<^verbatim>\<open>
  us_data.at['Hawaii','TOTALRECOVERED'] = hawaii_recovered
  us_data.at['Hawaii','ACTIVECASES'] = hawaii_active
  us_data.at['Hawaii','SURVIVAL_RATE'] = (hawaii_recovered / (us_data.at['Hawaii', 'TOTALCASES']))
  \<close>
  The recovered count is a Python \<^verbatim>\<open>int\<close>; the active count is a number read from a
  chart.
\<close>

fun patch_state ::
  "string \<times> int \<times> float64 \<Rightarrow> us_rate_row list \<Rightarrow> error + us_rate_row list" where
  "patch_state (label, recovered, active) t =
     (let t1 = at_set label (\<lambda>r. r\<lparr>us_row.TOTALRECOVERED := of_int64 recovered\<rparr>) t;
          t2 = at_set label (\<lambda>r. r\<lparr>us_row.ACTIVECASES := active\<rparr>) t1
      in (case at_get label us_row.TOTALCASES t2 of
            Inl e \<Rightarrow> Inl e
          | Inr tc \<Rightarrow>
              Inr (at_set label
                (\<lambda>r. r\<lparr>us_rate_row.SURVIVAL_RATE := true_div (of_int64 recovered) tc\<rparr>)
                t2)))"

fun patch_states ::
  "(string \<times> int \<times> float64) list \<Rightarrow> us_rate_row list \<Rightarrow> error + us_rate_row list" where
  "patch_states [] t = Inr t"
| "patch_states (p # ps) t =
     (case patch_state p t of Inl e \<Rightarrow> Inl e | Inr t' \<Rightarrow> patch_states ps t')"

definition repaired_states :: "string list" where
  "repaired_states =
     [''Hawaii'', ''South Carolina'', ''Indiana'', ''Wisconsin'', ''Alabama'',
      ''Louisiana'', ''Nebraska'', ''Maine'']"

definition repair_states ::
  "(string \<Rightarrow> int \<times> float64) \<Rightarrow> us_rate_row list \<Rightarrow> error + us_rate_row list" where
  \<comment> \<open>In[54]; \<open>scraped s\<close> are the recovered and the active count scraped for state \<open>s\<close>\<close>
  "repair_states scraped t =
     patch_states (map (\<lambda>s. (s, fst (scraped s), snd (scraped s))) repaired_states) t"

text \<open>
  For the proofs: the three writes of one block on a row, the table with a row for the
  label, and the whole block as one pass over the table.
\<close>

definition repair_write :: "int \<Rightarrow> float64 \<Rightarrow> us_rate_row \<Rightarrow> us_rate_row" where
  "repair_write recovered active r =
     r\<lparr>us_row.TOTALRECOVERED := of_int64 recovered, us_row.ACTIVECASES := active,
       us_rate_row.SURVIVAL_RATE := true_div (of_int64 recovered) (us_row.TOTALCASES r)\<rparr>"

definition ensure_row :: "string \<Rightarrow> us_rate_row list \<Rightarrow> us_rate_row list" where
  "ensure_row label t = (if label \<in> set (map STATE t) then t else t @ [null_row label])"

definition apply_patch :: "string \<times> int \<times> float64 \<Rightarrow> us_rate_row list \<Rightarrow> us_rate_row list" where
  "apply_patch p t =
     map (\<lambda>r. if STATE r = fst p then repair_write (fst (snd p)) (snd (snd p)) r else r)
       (ensure_row (fst p) t)"

section \<open>Example rows\<close>

text \<open>Rows for the concrete evaluations below.\<close>

definition world_example :: "string \<Rightarrow> int \<Rightarrow> int \<Rightarrow> int \<Rightarrow> int \<Rightarrow> int \<Rightarrow> world_row" where
  "world_example name cases deaths recovered tests pop =
     \<lparr>COUNTRY = name, TOTALCASES = cases, TOTALDEATHS = deaths, TOTALRECOVERED = recovered,
      ACTIVECASES = cases - deaths - recovered, SERIOUS_CRITICAL = 0, TOTCASES_PER_1M = 0,
      DEATH_PER_1M = 0, TOTALTESTS = tests, TESTS_PER_1M = 0, POPULATION = pop,
      CONTINENT = ''Europe''\<rparr>"

definition us_example :: "string \<Rightarrow> float64 \<Rightarrow> float64 \<Rightarrow> float64 \<Rightarrow> float64 \<Rightarrow> us_row" where
  "us_example name cases deaths recovered tests =
     \<lparr>STATE = name, us_row.TOTALCASES = cases, us_row.TOTALDEATHS = deaths,
      us_row.TOTALRECOVERED = recovered, us_row.ACTIVECASES = NaN,
      us_row.TOTCASES_PER_1M = Fin 0, us_row.DEATH_PER_1M = Fin 0,
      us_row.TOTALTESTS = tests, us_row.TESTS_PER_1M = Fin 0, us_row.POPULATION = Fin 0\<rparr>"

definition rate_example :: "string \<Rightarrow> int \<Rightarrow> float64 \<Rightarrow> rate_world_row" where
  "rate_example name cases gdp =
     add_rates (world_row.extend (world_example name cases 0 0 0 0) (gdp_world_row.fields gdp))"

definition world_table_example :: "world_row list" where
  "world_table_example =
     [world_example ''Peru'' 100 0 0 0 0, world_example ''Diamond Princess'' 712 0 0 0 0,
      world_example ''India'' 1000 0 0 0 0, world_example ''MS Zaandam'' 9 0 0 0 0]"

definition ships_table_example :: "world_row list" where
  "ships_table_example =
     [world_example ''Diamond Princess'' 712 0 0 0 0, world_example ''MS Zaandam'' 9 0 0 0 0,
      world_example ''MS Zaandam '' 9 0 0 0 0]"

definition us_table_example :: "us_rate_row list" where
  "us_table_example =
     [us_add_rates (us_example ''Hawaii'' (Fin 100) (Fin 1) NaN (Fin 400)),
      us_add_rates (us_example ''Texas'' (Fin 1000) (Fin 20) (Fin 500) (Fin 4000))]"

definition scraped_example :: "string \<Rightarrow> int \<times> float64" where
  "scraped_example s = (50, Fin 10)"

section \<open>Cell cleaning: properties\<close>

lemma strip_chars_split:
  "\<exists>a b. s = a @ strip_chars P s @ b \<and> list_all P a \<and> list_all P b"
proof -
  let ?d = "dropWhile P s"
  have 1: "s = takeWhile P s @ ?d" by simp
  have "rev (takeWhile P (rev ?d) @ dropWhile P (rev ?d)) = rev (rev ?d)"
    by (simp only: takeWhile_dropWhile_id)
  then have 2: "?d = strip_chars P s @ rev (takeWhile P (rev ?d))"
    by (simp only: rev_append rev_rev_ident strip_chars_def)
  have 3: "list_all P (takeWhile P s)"
    by (simp add: list_all_iff) (meson set_takeWhileD)
  have 4: "list_all P (rev (takeWhile P (rev ?d)))"
    by (simp add: list_all_iff) (meson set_takeWhileD)
  from 1 2 have "s = takeWhile P s @ strip_chars P s @ rev (takeWhile P (rev ?d))" by metis
  with 3 4 show ?thesis by blast
qed

lemma strip_chars_last: "strip_chars P s \<noteq> [] \<Longrightarrow> \<not> P (last (strip_chars P s))"
  by (simp add: strip_chars_def last_rev hd_dropWhile)

lemma last_dropWhile: "dropWhile P xs \<noteq> [] \<Longrightarrow> last (dropWhile P xs) = last xs"
  by (induction xs) (auto split: if_splits)

lemma strip_chars_hd: "strip_chars P s \<noteq> [] \<Longrightarrow> \<not> P (hd (strip_chars P s))"
proof -
  assume ne: "strip_chars P s \<noteq> []"
  let ?d = "dropWhile P s"
  from ne have n1: "dropWhile P (rev ?d) \<noteq> []" by (simp add: strip_chars_def)
  then have n2: "?d \<noteq> []" by (metis dropWhile.simps(1) rev.simps(1))
  have "hd (strip_chars P s) = last (dropWhile P (rev ?d))"
    using n1 by (simp add: strip_chars_def hd_rev)
  also have "\<dots> = last (rev ?d)" using n1 by (rule last_dropWhile)
  also have "\<dots> = hd ?d" using n2 by (simp add: last_rev)
  finally show ?thesis using n2 by (simp add: hd_dropWhile)
qed

lemma strip_chars_id: "\<forall>c\<in>set s. \<not> P c \<Longrightarrow> strip_chars P s = s"
proof (cases s)
  case Nil then show ?thesis by (simp add: strip_chars_def)
next
  case (Cons a as)
  assume h: "\<forall>c\<in>set s. \<not> P c"
  then have 1: "dropWhile P s = s" using Cons by simp
  have "rev s \<noteq> []" using Cons by simp
  moreover have "last s \<in> set s" using Cons by simp
  then have "\<not> P (hd (rev s))" using h Cons by (simp only: hd_rev) blast
  ultimately have "dropWhile P (rev s) = rev s" by (cases "rev s") auto
  with 1 show ?thesis by (simp add: strip_chars_def)
qed

lemma strip_chars_subset: "set (strip_chars P s) \<subseteq> set s"
proof
  fix x assume "x \<in> set (strip_chars P s)"
  then have "x \<in> set (dropWhile P (rev (dropWhile P s)))" by (simp add: strip_chars_def)
  then have "x \<in> set (rev (dropWhile P s))" by (rule set_dropWhileD)
  then have "x \<in> set (dropWhile P s)" by simp
  then show "x \<in> set s" by (rule set_dropWhileD)
qed

lemmas clean_simps = clean_cell_def spec_clean_cell_def strip_plus_def strip_ws_def
  strip_chars_def remove_char_def isspace_def

text \<open>
  Claim C6, as the code has it. The cleaning of a cell removes every newline, then every
  comma, then the plus signs at both ends of what is left (not only the leading ones),
  and it does nothing else: surrounding whitespace stays, it is not stripped before the
  numeric coercion. So the result has no newline and no comma, it is the text without
  newlines and commas up to plus signs cut off at its two ends, it neither starts nor
  ends with a plus sign, and a cell without these three characters is unchanged.
\<close>

theorem clean_cell_steps:
  "CHR 0x0A \<notin> set (clean_cell s) \<and> CHR '','' \<notin> set (clean_cell s) \<and>
   (\<exists>a b. remove_char (CHR '','') (remove_char (CHR 0x0A) s) = a @ clean_cell s @ b \<and>
          list_all (\<lambda>c. c = CHR ''+'') a \<and> list_all (\<lambda>c. c = CHR ''+'') b) \<and>
   (clean_cell s \<noteq> [] \<longrightarrow>
      hd (clean_cell s) \<noteq> CHR ''+'' \<and> last (clean_cell s) \<noteq> CHR ''+'') \<and>
   (CHR 0x0A \<notin> set s \<and> CHR '','' \<notin> set s \<and> CHR ''+'' \<notin> set s \<longrightarrow> clean_cell s = s)"
proof -
  let ?r = "remove_char (CHR '','') (remove_char (CHR 0x0A) s)"
  have sub: "set (clean_cell s) \<subseteq> set ?r"
    unfolding clean_cell_def strip_plus_def by (rule strip_chars_subset)
  have r: "CHR 0x0A \<notin> set ?r \<and> CHR '','' \<notin> set ?r" by (simp add: remove_char_def)
  have c1: "CHR 0x0A \<notin> set (clean_cell s)" using sub r by blast
  have c2: "CHR '','' \<notin> set (clean_cell s)" using sub r by blast
  have c3: "\<exists>a b. ?r = a @ clean_cell s @ b \<and>
          list_all (\<lambda>c. c = CHR ''+'') a \<and> list_all (\<lambda>c. c = CHR ''+'') b"
    unfolding clean_cell_def strip_plus_def by (rule strip_chars_split)
  have c4: "clean_cell s \<noteq> [] \<longrightarrow>
      hd (clean_cell s) \<noteq> CHR ''+'' \<and> last (clean_cell s) \<noteq> CHR ''+''"
    unfolding clean_cell_def strip_plus_def
    using strip_chars_hd [of "\<lambda>c. c = CHR ''+''" ?r] strip_chars_last [of "\<lambda>c. c = CHR ''+''" ?r]
    by blast
  have c5: "CHR 0x0A \<notin> set s \<and> CHR '','' \<notin> set s \<and> CHR ''+'' \<notin> set s \<longrightarrow> clean_cell s = s"
  proof
    assume h: "CHR 0x0A \<notin> set s \<and> CHR '','' \<notin> set s \<and> CHR ''+'' \<notin> set s"
    then have "\<forall>x\<in>set s. x \<noteq> CHR 0x0A \<and> x \<noteq> CHR '',''" by blast
    then have "?r = s" by (simp add: remove_char_def filter_id_conv)
    moreover have "strip_chars (\<lambda>c. c = CHR ''+'') s = s"
      using h by (intro strip_chars_id) auto
    ultimately show "clean_cell s = s" by (simp add: clean_cell_def strip_plus_def)
  qed
  from c1 c2 c3 c4 c5 show ?thesis by blast
qed

theorem clean_cell_steps_witness:
  "clean_cell ('' +1,2'' @ [CHR 0x0A] @ ''34+ '') = '' +1234+ '' \<and>
   clean_cell (''+1,2'' @ [CHR 0x0A] @ ''34+'') = ''1234'' \<and>
   CHR '','' \<notin> set (clean_cell (''+1,2'' @ [CHR 0x0A] @ ''34+'')) \<and>
   clean_cell '' 5 '' = '' 5 ''"
  using clean_cell_steps [of "'' 5 ''"] clean_cell_steps [of "''+1,2'' @ [CHR 0x0A] @ ''34+''"]
  by (simp add: clean_simps)

text \<open>
  The cleaning as C6 words it strips the surrounding whitespace last and only the leading
  plus signs; the code keeps the blank of \<^verbatim>\<open>" 5"\<close> and removes the trailing plus of
  \<^verbatim>\<open>"5+"\<close>.
\<close>

theorem clean_cell_counterexample:
  "clean_cell '' 5'' = '' 5'' \<and> spec_clean_cell '' 5'' = ''5'' \<and>
   clean_cell ''5+'' = ''5'' \<and> spec_clean_cell ''5+'' = ''5+''"
  by (simp add: clean_simps)

section \<open>Derived metrics: properties\<close>

lemmas row_defs = world_row.defs gdp_world_row.defs rate_world_row.defs area_world_row.defs
  global_row.defs us_row.defs us_rate_row.defs

lemmas rate_defs = add_rates_def assign_rates_def replace_inf_row_def replace_inf_def
  of_int64_def add_density_def us_add_rates_def

lemma true_div_int:
  "true_div (of_int64 a) (of_int64 b) =
     (if b = 0 then (if a = 0 then NaN else if 0 < a then PInf else NInf)
      else Fin (of_int a / of_int b))"
  by (simp add: of_int64_def)

lemma replace_inf_true_div_int:
  "replace_inf (true_div (of_int64 a) (of_int64 b)) =
     (if b = 0 then (if a = 0 then NaN else Fin 0) else Fin (of_int a / of_int b))"
  by (simp add: true_div_int replace_inf_def)

lemma add_rates_fields:
  "DEATH_RATE (add_rates r) = replace_inf (true_div (of_int64 (TOTALDEATHS r)) (of_int64 (TOTALCASES r)))"
  "SURVIVAL_RATE (add_rates r) = replace_inf (true_div (of_int64 (TOTALRECOVERED r)) (of_int64 (TOTALCASES r)))"
  "PERCENT_TESTS_POSITIVE (add_rates r) = replace_inf (true_div (of_int64 (TOTALCASES r)) (of_int64 (TOTALTESTS r)))"
  by (simp_all add: add_rates_def assign_rates_def replace_inf_row_def row_defs)

text \<open>
  Claim C1, as the code has it. In the global table the three rates of In[20] are never
  infinite: with a zero denominator and a non-zero numerator the rate is exactly zero,
  and with a non-zero denominator it is the quotient. (A quotient \<^verbatim>\<open>0 / 0\<close> is NaN and
  is not replaced; POPULATION_DENSITY is assigned after the replacement and the US table
  has its replacement commented out, so both keep the raw quotient.)
\<close>

theorem global_rates_never_infinite:
  "\<not> is_inf (DEATH_RATE (add_rates r)) \<and>
   \<not> is_inf (SURVIVAL_RATE (add_rates r)) \<and>
   \<not> is_inf (PERCENT_TESTS_POSITIVE (add_rates r)) \<and>
   (TOTALCASES r = 0 \<and> TOTALDEATHS r \<noteq> 0 \<longrightarrow> DEATH_RATE (add_rates r) = Fin 0) \<and>
   (TOTALCASES r = 0 \<and> TOTALRECOVERED r \<noteq> 0 \<longrightarrow> SURVIVAL_RATE (add_rates r) = Fin 0) \<and>
   (TOTALTESTS r = 0 \<and> TOTALCASES r \<noteq> 0 \<longrightarrow> PERCENT_TESTS_POSITIVE (add_rates r) = Fin 0) \<and>
   (TOTALCASES r \<noteq> 0 \<longrightarrow>
      DEATH_RATE (add_rates r) = Fin (of_int (TOTALDEATHS r) / of_int (TOTALCASES r)) \<and>
      SURVIVAL_RATE (add_rates r) = Fin (of_int (TOTALRECOVERED r) / of_int (TOTALCASES r))) \<and>
   (TOTALTESTS r \<noteq> 0 \<longrightarrow>
      PERCENT_TESTS_POSITIVE (add_rates r) = Fin (of_int (TOTALCASES r) / of_int (TOTALTESTS r)))"
  by (simp add: add_rates_fields replace_inf_true_div_int)

theorem global_rates_never_infinite_witness:
  "PERCENT_TESTS_POSITIVE
     (add_rates (world_row.extend (world_example ''Utopia'' 100 5 0 0 1000)
        (gdp_world_row.fields NaN))) = Fin 0 \<and>
   DEATH_RATE
     (add_rates (world_row.extend (world_example ''Utopia'' 100 5 0 0 1000)
        (gdp_world_row.fields NaN))) = Fin (1 / 20)"
  using global_rates_never_infinite
    [of "world_row.extend (world_example ''Utopia'' 100 5 0 0 1000) (gdp_world_row.fields NaN)"]
  by (simp add: world_example_def row_defs)

text \<open>
  C1 as stated fails in three places: a US rate with a zero denominator is infinite, a
  global rate \<^verbatim>\<open>0 / 0\<close> is NaN, and the population density over a land area of zero is
  infinite.
\<close>

theorem derived_metrics_counterexample:
  "us_rate_row.PERCENT_TESTS_POSITIVE
     (us_add_rates (us_example ''Hawaii'' (Fin 100) (Fin 1) NaN (Fin 0))) = PInf \<and>
   DEATH_RATE
     (add_rates (world_row.extend (world_example ''Utopia'' 0 0 0 10 1000)
        (gdp_world_row.fields NaN))) = NaN \<and>
   map POPULATION_DENSITY
     (map add_density (merge_country_area [(''Vatican City'', Fin 0)]
        [add_rates (world_row.extend (world_example ''Vatican City'' 12 0 12 0 801)
           (gdp_world_row.fields NaN))])) = [PInf]"
  by (simp add: us_example_def world_example_def rate_defs row_defs merge_country_area_def
      merge_left_def strip_country_def strip_ws_def strip_chars_def isspace_def aux_value_def)

section \<open>Numeric coercion: properties\<close>

lemmas coerce_defs = coerce_global_def fillna0_def replace_posinf0_def to_numeric_def
  is_digit_def digits_val_def py_int_def coerce_us_column_def

lemma coerce_us_column_length: "length (coerce_us_column p col) = length col"
  by (simp add: coerce_us_column_def Let_def)

lemma coerce_us_column_null:
  assumes "i < length col" and "p (col ! i) = NaN"
  shows "coerce_us_column p col ! i = NaN"
proof -
  from assms have "map p col ! i = NaN" by simp
  moreover from assms have "map p col ! i \<in> set (map p col)" by (intro nth_mem) simp
  ultimately have "NaN \<in> set (map p col)" by simp
  then have "\<exists>v\<in>set (map p col). \<not> is_fin v" by (intro bexI [of _ NaN]) simp_all
  then have "\<not> list_all is_fin (map p col)" by (simp only: list_all_iff) blast
  then have "coerce_us_column p col = map p col" by (simp add: coerce_us_column_def Let_def)
  with assms show ?thesis by simp
qed

text \<open>
  Claim C5, as the code has it. In the global table a cell whose parse fails (or gives
  NaN or the positive infinity) becomes the integer 0 and a finite value becomes its
  truncation, so whenever the parse is not the negative infinity the cell ends as an
  integer and no null is left. In the US table nothing fills the nulls: a cell whose
  parse fails is null after the coercion.
\<close>

theorem coerce_parse_failure:
  "(p s = NaN \<or> p s = PInf \<longrightarrow> coerce_global p s = Inr 0) \<and>
   (\<forall>r. p s = Fin r \<longrightarrow> coerce_global p s = Inr (py_int r)) \<and>
   (p s \<noteq> NInf \<longrightarrow> (\<exists>n. coerce_global p s = Inr n)) \<and>
   length (coerce_us_column p col) = length col \<and>
   (\<forall>i<length col. p (col ! i) = NaN \<longrightarrow> coerce_us_column p col ! i = NaN)"
proof -
  have 1: "p s = NaN \<or> p s = PInf \<longrightarrow> coerce_global p s = Inr 0"
    by (auto simp: coerce_global_def fillna0_def replace_posinf0_def py_int_def)
  have 2: "\<forall>r. p s = Fin r \<longrightarrow> coerce_global p s = Inr (py_int r)"
    by (simp add: coerce_global_def fillna0_def replace_posinf0_def)
  have 3: "p s \<noteq> NInf \<longrightarrow> (\<exists>n. coerce_global p s = Inr n)"
    by (cases "p s") (simp_all add: coerce_global_def fillna0_def replace_posinf0_def)
  from 1 2 3 show ?thesis
    using coerce_us_column_length coerce_us_column_null by blast
qed

theorem coerce_parse_failure_witness:
  "coerce_global to_numeric ''N/A'' = Inr 0 \<and>
   coerce_global to_numeric ''inf'' = Inr 0 \<and>
   coerce_global to_numeric ''1234'' = Inr 1234 \<and>
   coerce_us_column to_numeric [''12'', ''''] ! 1 = NaN"
  using coerce_parse_failure [of to_numeric "''N/A''" "[''12'', '''']"]
    coerce_parse_failure [of to_numeric "''inf''" "[]"]
  by (simp add: coerce_defs)

text \<open>
  C5 as stated fails on the US table: the cell \<^verbatim>\<open>N/A\<close> does not parse and ends as
  null, not as zero.
\<close>

theorem coerce_us_counterexample:
  "coerce_us_column to_numeric [''12'', ''N/A''] = [Fin 12, NaN]"
  by (simp add: coerce_defs)

section \<open>Key reconciliation: properties\<close>

lemma apply_aliases_Nil: "apply_aliases [] x = x"
  by (simp add: apply_aliases_def)

lemma apply_aliases_Cons:
  "apply_aliases ((old, new) # al) x = apply_aliases al (if x = old then new else x)"
  by (simp add: apply_aliases_def replace_value_def)

lemma apply_aliases_miss: "x \<notin> fst ` set al \<Longrightarrow> apply_aliases al x = x"
proof (induction al)
  case Nil
  show ?case by (rule apply_aliases_Nil)
next
  case (Cons e al)
  obtain old new where e: "e = (old, new)" by (cases e)
  with Cons show ?case by (simp add: apply_aliases_Cons)
qed

lemma apply_aliases_lookup:
  "snd ` set al \<inter> fst ` set al = {} \<Longrightarrow>
   apply_aliases al x = (case map_of al x of Some c \<Rightarrow> c | None \<Rightarrow> x)"
proof (induction al)
  case Nil
  show ?case by (simp add: apply_aliases_Nil)
next
  case (Cons e al)
  obtain old new where e: "e = (old, new)" by (cases e)
  from Cons.prems e have new: "new \<notin> fst ` set al" by auto
  from Cons.prems have disj: "snd ` set al \<inter> fst ` set al = {}" by auto
  show ?case
  proof (cases "x = old")
    case True
    then show ?thesis using e new by (simp add: apply_aliases_Cons apply_aliases_miss)
  next
    case False
    then show ?thesis using e Cons.IH [OF disj] by (simp add: apply_aliases_Cons)
  qed
qed

lemma apply_aliases_canonical:
  assumes "snd ` set al \<inter> fst ` set al = {}" and "k \<in> snd ` set al \<or> k \<notin> fst ` set al"
  shows "apply_aliases al k = k"
proof -
  from assms have "k \<notin> fst ` set al" by blast
  then show ?thesis by (rule apply_aliases_miss)
qed

lemma apply_aliases_image:
  assumes "snd ` set al \<inter> fst ` set al = {}"
  shows "apply_aliases al x \<in> snd ` set al \<or> apply_aliases al x \<notin> fst ` set al"
proof (cases "map_of al x")
  case None
  then have "x \<notin> fst ` set al" by (simp add: map_of_eq_None_iff)
  moreover from None have "apply_aliases al x = x"
    by (simp add: apply_aliases_lookup [OF assms])
  ultimately show ?thesis by simp
next
  case (Some c)
  then have "(x, c) \<in> set al" by (rule map_of_SomeD)
  then have "c \<in> snd ` set al" by force
  moreover from Some have "apply_aliases al x = c"
    by (simp add: apply_aliases_lookup [OF assms])
  ultimately show ?thesis by simp
qed

lemma global_aliases_disjoint: "snd ` set global_aliases \<inter> fst ` set global_aliases = {}"
  by (simp add: global_aliases_def)

lemma area_aliases_disjoint: "snd ` set area_aliases \<inter> fst ` set area_aliases = {}"
  by (simp add: area_aliases_def)

text \<open>
  The keys under which the rows of the land-area table enter the merge of In[25], after
  the aliases of In[18] and the strip.
\<close>

lemma alias_country_area_keys:
  "map fst (map (\<lambda>(k, v). (strip_ws k, v)) (alias_country_area country_area)) =
     map (\<lambda>r. area_key (fst r)) country_area"
  by (simp add: alias_country_area_def area_key_def case_prod_unfold comp_def)

lemmas key_defs = area_key_def global_key_def apply_aliases_def replace_value_def
  area_aliases_def global_aliases_def spec_reconcile_def strip_ws_def strip_chars_def
  isspace_def

text \<open>
  Claim C3, as the code has it. The alias lines amount to one exact lookup of the name,
  as it stands, in the alias table (no case folding, no stripping), and a name without an
  entry passes through unchanged; the whitespace is stripped after the lookup, in In[25],
  not before it.
\<close>

theorem alias_lookup_then_strip:
  "apply_aliases area_aliases n = (case map_of area_aliases n of Some c \<Rightarrow> c | None \<Rightarrow> n) \<and>
   apply_aliases global_aliases n = (case map_of global_aliases n of Some c \<Rightarrow> c | None \<Rightarrow> n) \<and>
   area_key n = strip_ws (case map_of area_aliases n of Some c \<Rightarrow> c | None \<Rightarrow> n) \<and>
   global_key n = strip_ws (case map_of global_aliases n of Some c \<Rightarrow> c | None \<Rightarrow> n)"
  by (simp add: area_key_def global_key_def apply_aliases_lookup [OF area_aliases_disjoint]
      apply_aliases_lookup [OF global_aliases_disjoint])

theorem alias_lookup_then_strip_witness:
  "area_key ''Holy See'' = ''Vatican City'' \<and>
   area_key ''holy see'' = ''holy see'' \<and>
   area_key ''Iceland '' = ''Iceland'' \<and>
   global_key ''USA'' = ''United States''"
  using alias_lookup_then_strip [of "''Holy See''"] alias_lookup_then_strip [of "''holy see''"]
    alias_lookup_then_strip [of "''Iceland ''"] alias_lookup_then_strip [of "''USA''"]
  by (simp add: key_defs)

text \<open>
  C3 places the strip before the lookup. A name with a leading blank shows the
  difference: the code does not find its alias and only strips it.
\<close>

theorem strip_before_lookup_counterexample:
  "area_key '' Holy See'' = ''Holy See'' \<and>
   spec_reconcile area_aliases '' Holy See'' = ''Vatican City''"
  by (simp add: key_defs)

text \<open>
  Claim C4. The alias mapping leaves a canonical key (one in the image of the alias
  table, or one outside its domain) unchanged, for both alias tables of the notebook, and
  applying the mapping twice to a list of keys gives what applying it once gives.
\<close>

theorem alias_idempotent:
  "(k \<in> snd ` set area_aliases \<or> k \<notin> fst ` set area_aliases \<longrightarrow>
      apply_aliases area_aliases k = k) \<and>
   (k \<in> snd ` set global_aliases \<or> k \<notin> fst ` set global_aliases \<longrightarrow>
      apply_aliases global_aliases k = k) \<and>
   map (apply_aliases area_aliases) (map (apply_aliases area_aliases) ks) =
     map (apply_aliases area_aliases) ks \<and>
   map (apply_aliases global_aliases) (map (apply_aliases global_aliases) ks) =
     map (apply_aliases global_aliases) ks"
proof -
  have a: "apply_aliases area_aliases (apply_aliases area_aliases x) = apply_aliases area_aliases x"
    for x
    using apply_aliases_canonical [OF area_aliases_disjoint]
      apply_aliases_image [OF area_aliases_disjoint] by blast
  have g: "apply_aliases global_aliases (apply_aliases global_aliases x) =
      apply_aliases global_aliases x" for x
    using apply_aliases_canonical [OF global_aliases_disjoint]
      apply_aliases_image [OF global_aliases_disjoint] by blast
  show ?thesis
    using apply_aliases_canonical [OF area_aliases_disjoint, of k]
      apply_aliases_canonical [OF global_aliases_disjoint, of k]
    by (simp add: a g)
qed

theorem alias_idempotent_witness:
  "apply_aliases global_aliases ''United States'' = ''United States'' \<and>
   apply_aliases area_aliases ''Vatican City'' = ''Vatican City'' \<and>
   map (apply_aliases global_aliases) (map (apply_aliases global_aliases) [''USA'', ''UK'', ''Peru'']) =
     [''United States'', ''United Kingdom'', ''Peru'']"
proof -
  have 1: "apply_aliases global_aliases ''United States'' = ''United States''"
    using alias_idempotent [of "''United States''" "[]"] by (simp add: global_aliases_def)
  have 2: "apply_aliases area_aliases ''Vatican City'' = ''Vatican City''"
    using alias_idempotent [of "''Vatican City''" "[]"] by (simp add: area_aliases_def)
  have 3: "map (apply_aliases global_aliases) [''USA'', ''UK'', ''Peru''] =
     [''United States'', ''United Kingdom'', ''Peru'']"
    by (simp add: key_defs)
  from 1 2 3 show ?thesis
    using alias_idempotent [of "''Vatican City''" "[''USA'', ''UK'', ''Peru'']"] by simp
qed

section \<open>Left merge: properties\<close>

lemma merge_left_Nil: "merge_left kl kr [] right = []"
  by (simp add: merge_left_def)

lemma merge_left_Cons:
  "merge_left kl kr (l # left) right = join_row kl kr right l @ merge_left kl kr left right"
  by (simp add: merge_left_def join_row_def)

lemma join_row_fst: "(x, m) \<in> set (join_row kl kr right l) \<Longrightarrow> x = l"
  by (auto simp: join_row_def split: list.splits)

lemma join_row_nonempty: "join_row kl kr right l \<noteq> []"
  by (simp add: join_row_def split: list.splits)

lemma join_row_Some:
  "(x, Some r) \<in> set (join_row kl kr right l) \<longleftrightarrow> x = l \<and> r \<in> set right \<and> kr r = kl l"
proof (cases "filter (\<lambda>r. kr r = kl l) right")
  case Nil
  then have "\<forall>r\<in>set right. kr r \<noteq> kl l" by (simp add: filter_empty_conv)
  with Nil show ?thesis by (auto simp: join_row_def)
next
  case (Cons m ms)
  have "r \<in> set (m # ms) \<longleftrightarrow> r \<in> set right \<and> kr r = kl l"
    unfolding Cons [symmetric] by simp
  with Cons show ?thesis by (auto simp: join_row_def)
qed

lemma join_row_None:
  "(x, None) \<in> set (join_row kl kr right l) \<longleftrightarrow> x = l \<and> kl l \<notin> kr ` set right"
proof (cases "filter (\<lambda>r. kr r = kl l) right")
  case Nil
  then have "\<forall>r\<in>set right. kr r \<noteq> kl l" by (simp add: filter_empty_conv)
  with Nil show ?thesis by (auto simp: join_row_def)
next
  case (Cons m ms)
  then have "m \<in> set (filter (\<lambda>r. kr r = kl l) right)" by simp
  then have "m \<in> set right \<and> kr m = kl l" by simp
  then have "kl l \<in> kr ` set right" by (intro image_eqI [of _ _ m]) simp_all
  with Cons show ?thesis by (auto simp: join_row_def)
qed

lemma merge_left_Some:
  "(x, Some r) \<in> set (merge_left kl kr left right) \<longleftrightarrow>
     x \<in> set left \<and> r \<in> set right \<and> kr r = kl x"
  by (induction left) (auto simp: merge_left_Nil merge_left_Cons join_row_Some)

lemma merge_left_None:
  "(x, None) \<in> set (merge_left kl kr left right) \<longleftrightarrow> x \<in> set left \<and> kl x \<notin> kr ` set right"
  by (induction left) (auto simp: merge_left_Nil merge_left_Cons join_row_None)

lemma join_row_fst_image: "fst ` set (join_row kl kr right l) = {l}"
proof -
  have "fst p = l" if "p \<in> set (join_row kl kr right l)" for p
  proof -
    from that have "(fst p, snd p) \<in> set (join_row kl kr right l)" by simp
    then show ?thesis by (rule join_row_fst)
  qed
  then have sub: "fst ` set (join_row kl kr right l) \<subseteq> {l}" by blast
  obtain p ps where "join_row kl kr right l = p # ps"
    using join_row_nonempty [of kl kr right l] by (cases "join_row kl kr right l") simp_all
  then have "fst p \<in> fst ` set (join_row kl kr right l)" by simp
  with sub show ?thesis by blast
qed

lemma merge_left_fst: "fst ` set (merge_left kl kr left right) = set left"
proof (induction left)
  case Nil
  show ?case by (simp add: merge_left_Nil)
next
  case (Cons l left)
  have "fst ` set (merge_left kl kr (l # left) right) =
      fst ` set (join_row kl kr right l) \<union> fst ` set (merge_left kl kr left right)"
    by (simp only: merge_left_Cons set_append image_Un)
  also have "\<dots> = {l} \<union> set left"
    by (simp only: join_row_fst_image Cons.IH)
  finally show ?case by simp
qed

lemma filter_key_distinct:
  "distinct (map kr right) \<Longrightarrow>
   filter (\<lambda>r. kr r = k) right = (case find (\<lambda>r. kr r = k) right of None \<Rightarrow> [] | Some r \<Rightarrow> [r])"
proof (induction right)
  case Nil
  show ?case by simp
next
  case (Cons a right)
  show ?case
  proof (cases "kr a = k")
    case True
    with Cons.prems have "k \<notin> kr ` set right" by simp
    then have "\<forall>r\<in>set right. kr r \<noteq> k" by blast
    then have "filter (\<lambda>r. kr r = k) right = []" by (simp add: filter_empty_conv)
    with True show ?thesis by simp
  next
    case False
    with Cons show ?thesis by simp
  qed
qed

lemma join_row_distinct:
  "distinct (map kr right) \<Longrightarrow> join_row kl kr right l = [(l, find (\<lambda>r. kr r = kl l) right)]"
  by (simp add: join_row_def filter_key_distinct split: option.splits)

lemma merge_left_distinct:
  "distinct (map kr right) \<Longrightarrow>
   merge_left kl kr left right = map (\<lambda>l. (l, find (\<lambda>r. kr r = kl l) right)) left"
  by (induction left) (simp_all add: merge_left_Nil merge_left_Cons join_row_distinct)

lemma merge_left_length_ge: "length left \<le> length (merge_left kl kr left right)"
proof (induction left)
  case Nil
  show ?case by (simp add: merge_left_Nil)
next
  case (Cons l left)
  have "1 \<le> length (join_row kl kr right l)"
    using join_row_nonempty [of kl kr right l] by (cases "join_row kl kr right l") simp_all
  with Cons show ?case by (simp add: merge_left_Cons)
qed

text \<open>
  Claim C2, as the code has it. When the keys of the auxiliary table are pairwise
  distinct, the merged table has exactly as many records as the base table: the base
  rows in their order, each with the auxiliary row of its key, or with nulls when there
  is none; and then it has one record per base key when the base keys are distinct too.
  In every merge an auxiliary row is in the result only beside a base row of the same
  key (so the auxiliary rows that match no base key are dropped), a base row is in the
  result with nulls exactly when no auxiliary row has its key, and no base row is lost.
\<close>

theorem merge_left_cardinality:
  "(distinct (map kr right) \<longrightarrow>
      merge_left kl kr left right = map (\<lambda>l. (l, find (\<lambda>r. kr r = kl l) right)) left \<and>
      length (merge_left kl kr left right) = length left \<and>
      map fst (merge_left kl kr left right) = left \<and>
      (distinct (map kl left) \<longrightarrow> distinct (map (\<lambda>p. kl (fst p)) (merge_left kl kr left right)))) \<and>
   (\<forall>l r. (l, Some r) \<in> set (merge_left kl kr left right) \<longleftrightarrow>
      l \<in> set left \<and> r \<in> set right \<and> kr r = kl l) \<and>
   (\<forall>l. (l, None) \<in> set (merge_left kl kr left right) \<longleftrightarrow>
      l \<in> set left \<and> kl l \<notin> kr ` set right) \<and>
   length left \<le> length (merge_left kl kr left right)"
proof -
  have d: "distinct (map kr right) \<longrightarrow>
      merge_left kl kr left right = map (\<lambda>l. (l, find (\<lambda>r. kr r = kl l) right)) left \<and>
      length (merge_left kl kr left right) = length left \<and>
      map fst (merge_left kl kr left right) = left \<and>
      (distinct (map kl left) \<longrightarrow> distinct (map (\<lambda>p. kl (fst p)) (merge_left kl kr left right)))"
  proof
    assume "distinct (map kr right)"
    then have eq: "merge_left kl kr left right =
        map (\<lambda>l. (l, find (\<lambda>r. kr r = kl l) right)) left"
      by (rule merge_left_distinct)
    have "map (\<lambda>p. kl (fst p)) (map (\<lambda>l. (l, find (\<lambda>r. kr r = kl l) right)) left) = map kl left"
      by (simp add: comp_def)
    with eq show "merge_left kl kr left right = map (\<lambda>l. (l, find (\<lambda>r. kr r = kl l) right)) left \<and>
      length (merge_left kl kr left right) = length left \<and>
      map fst (merge_left kl kr left right) = left \<and>
      (distinct (map kl left) \<longrightarrow> distinct (map (\<lambda>p. kl (fst p)) (merge_left kl kr left right)))"
      by (simp add: comp_def)
  qed
  have s: "\<forall>l r. (l, Some r) \<in> set (merge_left kl kr left right) \<longleftrightarrow>
      l \<in> set left \<and> r \<in> set right \<and> kr r = kl l"
    by (simp only: merge_left_Some) simp
  have n: "\<forall>l. (l, None) \<in> set (merge_left kl kr left right) \<longleftrightarrow>
      l \<in> set left \<and> kl l \<notin> kr ` set right"
    by (simp only: merge_left_None) simp
  from d s n merge_left_length_ge [of left kl kr right] show ?thesis
    by (intro conjI)
qed

theorem merge_left_cardinality_witness:
  "merge_left fst fst [(''United States'', 10 :: int), (''United Kingdom'', 5)]
     [(''United States'', 60000 :: int), (''France'', 40000)] =
   [((''United States'', 10), Some (''United States'', 60000)), ((''United Kingdom'', 5), None)]"
  using merge_left_cardinality [of fst "[(''United States'', 60000 :: int), (''France'', 40000)]"
      fst "[(''United States'', 10 :: int), (''United Kingdom'', 5)]"]
  by simp

text \<open>
  C2 as stated fails when the auxiliary table repeats a key: the one base row of Peru
  comes out twice.
\<close>

theorem merge_left_counterexample:
  "length (merge_country_gdp [(''Peru'', Fin 6000), (''Peru'', Fin 6100)]
     [world_example ''Peru'' 100 5 90 1000 33000000]) = 2"
  by (simp add: merge_country_gdp_def merge_left_def world_example_def)

section \<open>The repair of the GDP column: properties\<close>









section \<open>The global table from In[13] to In[57]: properties\<close>

text \<open>What each step does to the key and to TOTALCASES.\<close>

lemma merge_country_gdp_conv:
  "merge_country_gdp g t =
     map (\<lambda>p. world_row.extend (fst p) (gdp_world_row.fields (aux_value (snd p))))
       (merge_left COUNTRY fst t g)"
  by (simp add: merge_country_gdp_def case_prod_unfold)

lemma remerge_gdp_conv:
  "remerge_gdp u t =
     map (\<lambda>p. (fst p)\<lparr>GDP_PER_CAPITA := aux_value (snd p)\<rparr>) (merge_left COUNTRY fst t u)"
  by (simp add: remerge_gdp_def case_prod_unfold)

lemma merge_country_area_conv:
  "merge_country_area a t =
     map (\<lambda>p. rate_world_row.extend (fst p) (area_world_row.fields (aux_value (snd p))))
       (merge_left COUNTRY fst (strip_country t) (map (\<lambda>(k, v). (strip_ws k, v)) a))"
  by (simp add: merge_country_area_def case_prod_unfold)

lemma stage_fields:
  "COUNTRY (world_row.extend r (gdp_world_row.fields x)) = COUNTRY r"
  "TOTALCASES (world_row.extend r (gdp_world_row.fields x)) = TOTALCASES r"
  "COUNTRY (add_rates r1) = COUNTRY r1"
  "TOTALCASES (add_rates r1) = TOTALCASES r1"
  "COUNTRY (rate_world_row.extend r2 (area_world_row.fields x)) = COUNTRY r2"
  "TOTALCASES (rate_world_row.extend r2 (area_world_row.fields x)) = TOTALCASES r2"
  "COUNTRY (add_density r3) = COUNTRY r3"
  "TOTALCASES (add_density r3) = TOTALCASES r3"
  by (simp_all add: add_rates_def assign_rates_def replace_inf_row_def add_density_def row_defs)

text \<open>The order of TOTALCASES through the steps.\<close>

lemma desc_map: "desc f (map g xs) = desc (\<lambda>x. f (g x)) xs"
  by (simp add: sorted_wrt_map)

lemma desc_join_row: "desc (\<lambda>p. f (fst p)) (join_row kl kr right l)"
proof -
  have "\<forall>p\<in>set (join_row kl kr right l). fst p = l"
    using join_row_fst_image [of kl kr right l] by auto
  then have "\<forall>p\<in>set (join_row kl kr right l). \<forall>q\<in>set (join_row kl kr right l).
      f (fst q) \<le> f (fst p)" by simp
  then show ?thesis by (simp add: sorted_wrt_iff_nth_less)
qed

lemma desc_merge_left:
  "desc f left \<Longrightarrow> desc (\<lambda>p. f (fst p)) (merge_left kl kr left right)"
proof (induction left)
  case Nil
  show ?case by (simp add: merge_left_Nil)
next
  case (Cons l left)
  from Cons.prems have tl: "desc f left" and hd: "\<forall>x\<in>set left. f x \<le> f l" by simp_all
  have cross: "f (fst q) \<le> f (fst p)"
    if "p \<in> set (join_row kl kr right l)" and "q \<in> set (merge_left kl kr left right)" for p q
  proof -
    from that(1) have "fst p \<in> fst ` set (join_row kl kr right l)" by (rule imageI)
    then have p: "fst p = l" by (simp add: join_row_fst_image)
    from that(2) have "fst q \<in> fst ` set (merge_left kl kr left right)" by (rule imageI)
    then have "fst q \<in> set left" by (simp add: merge_left_fst)
    with hd p show ?thesis by simp
  qed
  show ?case
    unfolding merge_left_Cons sorted_wrt_append
    using desc_join_row [of f kl kr right l] Cons.IH [OF tl] cross by blast
qed

lemma desc_sort_values: "desc TOTALCASES (sort_values_desc t)"
proof -
  have "sorted (map (\<lambda>r. - TOTALCASES r) (sort_key (\<lambda>r. - TOTALCASES r) t))"
    by (rule sorted_sort_key)
  then show ?thesis by (simp add: sort_values_desc_def sorted_wrt_map)
qed

lemma desc_merge_country_gdp: "desc TOTALCASES t \<Longrightarrow> desc TOTALCASES (merge_country_gdp g t)"
  by (simp add: merge_country_gdp_conv desc_map stage_fields desc_merge_left)

lemma desc_remerge_gdp:
  fixes t :: "rate_world_row list"
  shows "desc TOTALCASES t \<Longrightarrow> desc TOTALCASES (remerge_gdp u t)"
  by (simp add: remerge_gdp_conv desc_map desc_merge_left)

lemma desc_merge_country_area:
  fixes t :: "rate_world_row list"
  assumes "desc TOTALCASES t"
  shows "desc TOTALCASES (merge_country_area a t)"
proof -
  from assms have "desc TOTALCASES (strip_country t)"
    by (simp add: strip_country_def desc_map)
  then show ?thesis
    by (simp add: merge_country_area_conv desc_map stage_fields desc_merge_left)
qed

lemma drop_labels_Inr:
  "drop_labels labels key t = Inr t' \<longleftrightarrow>
     set labels \<subseteq> key ` set t \<and> t' = filter (\<lambda>r. key r \<notin> set labels) t"
  by (auto simp: drop_labels_def list_all_iff)

lemma desc_drop_ships:
  fixes t :: "rate_world_row list"
  assumes "desc TOTALCASES t" and "drop_ships t = Inr t'"
  shows "desc TOTALCASES t'"
proof -
  from assms(2) have "t' = filter (\<lambda>r. COUNTRY r \<notin> set ships) t"
    by (simp add: drop_ships_def drop_labels_Inr)
  with assms(1) show ?thesis by (simp add: sorted_wrt_filter)
qed

lemma global_pipeline_Inr:
  assumes "global_pipeline g u a t = Inr out"
  obtains t' where
    "drop_ships (remerge_gdp u (map add_rates (merge_country_gdp g (sort_values_desc t)))) = Inr t'"
    and "out = map add_density (merge_country_area a t')"
  using assms by (auto simp: global_pipeline_def split: sum.splits)

lemma desc_global_pipeline:
  assumes "global_pipeline g u a t = Inr out"
  shows "desc TOTALCASES out"
proof -
  from assms obtain t' where
    d: "drop_ships (remerge_gdp u (map add_rates (merge_country_gdp g (sort_values_desc t)))) = Inr t'"
    and out: "out = map add_density (merge_country_area a t')"
    by (rule global_pipeline_Inr)
  have "desc TOTALCASES (merge_country_gdp g (sort_values_desc t))"
    by (intro desc_merge_country_gdp desc_sort_values)
  then have "desc TOTALCASES (map add_rates (merge_country_gdp g (sort_values_desc t)))"
    by (simp add: desc_map stage_fields)
  then have "desc TOTALCASES (remerge_gdp u (map add_rates (merge_country_gdp g (sort_values_desc t))))"
    by (rule desc_remerge_gdp)
  then have "desc TOTALCASES t'" using d by (rule desc_drop_ships)
  then have "desc TOTALCASES (merge_country_area a t')" by (rule desc_merge_country_area)
  then show ?thesis by (simp add: out desc_map stage_fields)
qed

lemma desc_take_drop:
  assumes "desc f xs" and "a \<in> set (take n xs)" and "b \<in> set (drop n xs)"
  shows "f b \<le> f a"
proof -
  from assms(1) have "desc f (take n xs @ drop n xs)" by simp
  then have "\<forall>x\<in>set (take n xs). \<forall>y\<in>set (drop n xs). f y \<le> f x"
    unfolding sorted_wrt_append by blast
  with assms(2,3) show ?thesis by blast
qed

text \<open>The steps without auxiliary rows, on the example tables.\<close>

lemma world_example_fields:
  "COUNTRY (world_example n c d r t p) = n"
  "TOTALCASES (world_example n c d r t p) = c"
  by (simp_all add: world_example_def)

lemma rate_example_fields:
  "COUNTRY (rate_example n c g) = n"
  "TOTALCASES (rate_example n c g) = c"
  "GDP_PER_CAPITA (rate_example n c g) = replace_inf g"
  by (simp_all add: rate_example_def world_example_def add_rates_def assign_rates_def
      replace_inf_row_def row_defs)

lemma merge_left_empty: "merge_left kl kr left [] = map (\<lambda>l. (l, None)) left"
  by (induction left) (simp_all add: merge_left_Nil merge_left_Cons join_row_def)

lemma no_gdp_stages:
  "remerge_gdp [] (map add_rates (merge_country_gdp [] t)) =
     map (\<lambda>r. (add_rates (world_row.extend r (gdp_world_row.fields NaN)))
       \<lparr>GDP_PER_CAPITA := NaN\<rparr>) t"
  by (simp add: remerge_gdp_def merge_country_gdp_def merge_left_empty aux_value_def comp_def)

lemma no_gdp_example:
  "(add_rates (world_row.extend (world_example n c 0 0 0 0) (gdp_world_row.fields NaN)))
     \<lparr>GDP_PER_CAPITA := NaN\<rparr> = rate_example n c NaN"
  by (simp add: rate_example_def add_rates_def assign_rates_def replace_inf_row_def
      replace_inf_def row_defs)

lemma world_table_example_sorted:
  "sort_values_desc world_table_example =
     [world_example ''India'' 1000 0 0 0 0, world_example ''Diamond Princess'' 712 0 0 0 0,
      world_example ''Peru'' 100 0 0 0 0, world_example ''MS Zaandam'' 9 0 0 0 0]"
  by (simp add: sort_values_desc_def world_table_example_def world_example_fields)

lemma world_table_example_run:
  "global_pipeline [] [] [] world_table_example =
     Inr (map add_density (merge_country_area []
       [rate_example ''India'' 1000 NaN, rate_example ''Peru'' 100 NaN]))"
  by (simp add: global_pipeline_def world_table_example_sorted no_gdp_stages no_gdp_example
      drop_ships_def drop_labels_def ships_def rate_example_fields)

lemma merge_country_area_empty:
  "merge_country_area [] t =
     map (\<lambda>r. rate_world_row.extend (r\<lparr>COUNTRY := strip_ws (COUNTRY r)\<rparr>)
       (area_world_row.fields NaN)) t"
  by (simp add: merge_country_area_def strip_country_def merge_left_empty aux_value_def comp_def)

lemma ships_table_example_sorted: "sort_values_desc ships_table_example = ships_table_example"
  by (simp add: sort_values_desc_def ships_table_example_def world_example_fields)

lemmas strip_defs = strip_ws_def strip_chars_def isspace_def

lemmas run_simps = no_gdp_stages no_gdp_example merge_country_area_empty stage_fields
  rate_example_fields drop_ships_def drop_labels_def ships_def top_cases_def strip_defs

text \<open>The keys through the steps.\<close>

lemma keys_merge_country_gdp: "COUNTRY ` set (merge_country_gdp g t) = COUNTRY ` set t"
proof -
  have "COUNTRY ` set (merge_country_gdp g t) =
      (\<lambda>p. COUNTRY (fst p)) ` set (merge_left COUNTRY fst t g)"
    by (simp add: merge_country_gdp_conv image_image stage_fields)
  also have "\<dots> = COUNTRY ` fst ` set (merge_left COUNTRY fst t g)"
    by (simp add: image_image)
  finally show ?thesis by (simp only: merge_left_fst)
qed

lemma keys_remerge_gdp:
  fixes t :: "rate_world_row list"
  shows "COUNTRY ` set (remerge_gdp u t) = COUNTRY ` set t"
proof -
  have "COUNTRY ` set (remerge_gdp u t) =
      (\<lambda>p. COUNTRY (fst p)) ` set (merge_left COUNTRY fst t u)"
    by (simp add: remerge_gdp_conv image_image)
  also have "\<dots> = COUNTRY ` fst ` set (merge_left COUNTRY fst t u)"
    by (simp add: image_image)
  finally show ?thesis by (simp only: merge_left_fst)
qed

lemma keys_merge_country_area:
  fixes t :: "rate_world_row list"
  shows "COUNTRY ` set (merge_country_area a t) = strip_ws ` COUNTRY ` set t"
proof -
  have "COUNTRY ` set (merge_country_area a t) =
      (\<lambda>p. COUNTRY (fst p)) `
        set (merge_left COUNTRY fst (strip_country t) (map (\<lambda>(k, v). (strip_ws k, v)) a))"
    by (simp add: merge_country_area_conv image_image stage_fields)
  also have "\<dots> = COUNTRY ` fst `
        set (merge_left COUNTRY fst (strip_country t) (map (\<lambda>(k, v). (strip_ws k, v)) a))"
    by (simp add: image_image)
  also have "\<dots> = COUNTRY ` set (strip_country t)" by (simp only: merge_left_fst)
  also have "\<dots> = strip_ws ` COUNTRY ` set t" by (simp add: strip_country_def image_image)
  finally show ?thesis .
qed

lemma keys_global_pipeline:
  assumes "global_pipeline g u a t = Inr out"
  shows "COUNTRY ` set out = strip_ws ` (COUNTRY ` set t - set ships)"
proof -
  let ?m = "remerge_gdp u (map add_rates (merge_country_gdp g (sort_values_desc t)))"
  from assms obtain t' where d: "drop_ships ?m = Inr t'"
    and out: "out = map add_density (merge_country_area a t')"
    by (rule global_pipeline_Inr)
  have "COUNTRY ` set (map add_rates (merge_country_gdp g (sort_values_desc t))) =
      COUNTRY ` set (merge_country_gdp g (sort_values_desc t))"
    by (simp add: image_image stage_fields)
  then have m: "COUNTRY ` set ?m = COUNTRY ` set t"
    by (simp only: keys_remerge_gdp keys_merge_country_gdp) (simp add: sort_values_desc_def)
  from d have "t' = filter (\<lambda>r. COUNTRY r \<notin> set ships) ?m"
    by (simp add: drop_ships_def drop_labels_Inr)
  then have "COUNTRY ` set t' = COUNTRY ` set ?m - set ships" by auto
  with m have t': "COUNTRY ` set t' = COUNTRY ` set t - set ships" by simp
  have "COUNTRY ` set out = COUNTRY ` set (merge_country_area a t')"
    by (simp add: out image_image stage_fields)
  then show ?thesis by (simp only: keys_merge_country_area t')
qed

text \<open>The columns of the cleaned table through the steps, when no auxiliary key repeats.\<close>

lemma truncate_fields:
  "world_row.truncate (world_row.extend r (gdp_world_row.fields x)) = r"
  "world_row.truncate (add_rates r1) = world_row.truncate r1"
  "world_row.truncate (r2\<lparr>GDP_PER_CAPITA := g\<rparr>) = world_row.truncate r2"
  "world_row.truncate (rate_world_row.extend r3 (area_world_row.fields x)) = world_row.truncate r3"
  "world_row.truncate (r4\<lparr>COUNTRY := k\<rparr>) = (world_row.truncate r4)\<lparr>COUNTRY := k\<rparr>"
  "world_row.truncate (add_density r5) = world_row.truncate r5"
  "COUNTRY (world_row.truncate r6) = COUNTRY r6"
  by (simp_all add: add_rates_def assign_rates_def replace_inf_row_def add_density_def row_defs)

lemma truncate_merge_country_gdp:
  "distinct (map fst g) \<Longrightarrow> map world_row.truncate (merge_country_gdp g t) = t"
  by (simp add: merge_country_gdp_conv merge_left_distinct comp_def truncate_fields)

lemma truncate_remerge_gdp:
  fixes t :: "rate_world_row list"
  shows "distinct (map fst u) \<Longrightarrow>
    map world_row.truncate (remerge_gdp u t) = map world_row.truncate t"
  by (simp add: remerge_gdp_conv merge_left_distinct comp_def truncate_fields)

lemma truncate_merge_country_area:
  fixes t :: "rate_world_row list"
  assumes "distinct (map (\<lambda>r. strip_ws (fst r)) a)"
  shows "map world_row.truncate (merge_country_area a t) =
    map strip_key (map world_row.truncate t)"
proof -
  have "map fst (map (\<lambda>(k, v). (strip_ws k, v)) a) = map (\<lambda>r. strip_ws (fst r)) a"
    by (simp add: case_prod_unfold comp_def)
  with assms have "distinct (map fst (map (\<lambda>(k, v). (strip_ws k, v)) a))" by (simp only:)
  then show ?thesis
    by (simp add: merge_country_area_conv merge_left_distinct strip_country_def comp_def
        truncate_fields strip_key_def)
qed

lemma truncate_filter_ships:
  fixes t :: "rate_world_row list"
  shows "map world_row.truncate (filter (\<lambda>r. COUNTRY r \<notin> set ships) t) =
    filter (\<lambda>r. COUNTRY r \<notin> set ships) (map world_row.truncate t)"
  by (simp add: filter_map comp_def truncate_fields)

lemma truncate_global_pipeline:
  assumes run: "global_pipeline g u a t = Inr out"
    and dg: "distinct (map fst g)" and du: "distinct (map fst u)"
    and da: "distinct (map (\<lambda>r. strip_ws (fst r)) a)"
  shows "map world_row.truncate out =
    map strip_key (filter (\<lambda>r. COUNTRY r \<notin> set ships) (sort_values_desc t))"
proof -
  let ?c = "map add_rates (merge_country_gdp g (sort_values_desc t))"
  from run obtain t' where d: "drop_ships (remerge_gdp u ?c) = Inr t'"
    and out: "out = map add_density (merge_country_area a t')"
    by (rule global_pipeline_Inr)
  have "map world_row.truncate ?c = map world_row.truncate (merge_country_gdp g (sort_values_desc t))"
    by (simp add: comp_def truncate_fields)
  also have "\<dots> = sort_values_desc t" using dg by (rule truncate_merge_country_gdp)
  finally have c: "map world_row.truncate ?c = sort_values_desc t" .
  have m: "map world_row.truncate (remerge_gdp u ?c) = sort_values_desc t"
    using truncate_remerge_gdp [OF du, of ?c] c by simp
  from d have "t' = filter (\<lambda>r. COUNTRY r \<notin> set ships) (remerge_gdp u ?c)"
    by (simp add: drop_ships_def drop_labels_Inr)
  then have t': "map world_row.truncate t' =
      filter (\<lambda>r. COUNTRY r \<notin> set ships) (sort_values_desc t)"
    by (simp only: truncate_filter_ships m)
  have "map world_row.truncate out = map world_row.truncate (merge_country_area a t')"
    by (simp add: out comp_def truncate_fields)
  also have "\<dots> = map strip_key (map world_row.truncate t')"
    using da by (rule truncate_merge_country_area)
  finally show ?thesis by (simp only: t')
qed

text \<open>
  Claim C10, as the code has it. The sort of In[13] leaves the rows of the cleaned table
  in non-increasing order of TOTALCASES. The table that In[57] slices is still in that
  order, and no record outside \<open>top_cases\<close> has more cases than a record inside. When no
  key repeats in the three auxiliary tables (for the land-area table: no key after the
  strip), \<open>top_cases\<close> holds, in the columns of the cleaned table and with the key
  stripped, the first ten records of the In[13] ordering that are not one of the two
  ships (all of them when there are fewer than ten).
\<close>

theorem top_cases_first_ten:
  "sorted_wrt (\<ge>) (map TOTALCASES (sort_values_desc t)) \<and>
   mset (sort_values_desc t) = mset t \<and>
   (global_pipeline country_gdp gdp_df_update country_area t = Inr global_data \<longrightarrow>
      sorted_wrt (\<ge>) (map TOTALCASES global_data) \<and>
      (\<forall>a\<in>set (top_cases global_data). \<forall>b\<in>set (drop 10 global_data).
         TOTALCASES b \<le> TOTALCASES a) \<and>
      (distinct (map fst country_gdp) \<and> distinct (map fst gdp_df_update) \<and>
       distinct (map (\<lambda>r. strip_ws (fst r)) country_area) \<longrightarrow>
         map world_row.truncate (top_cases global_data) =
           take 10 (map strip_key
             (filter (\<lambda>r. COUNTRY r \<notin> set ships) (sort_values_desc t)))))"
proof -
  have 1: "sorted_wrt (\<ge>) (map TOTALCASES (sort_values_desc t))"
    using desc_sort_values [of t] by (simp add: sorted_wrt_map)
  have 2: "mset (sort_values_desc t) = mset t" by (simp add: sort_values_desc_def)
  have 3: "sorted_wrt (\<ge>) (map TOTALCASES global_data) \<and>
      (\<forall>a\<in>set (top_cases global_data). \<forall>b\<in>set (drop 10 global_data).
         TOTALCASES b \<le> TOTALCASES a)"
    if p: "global_pipeline country_gdp gdp_df_update country_area t = Inr global_data"
  proof -
    from p have d: "desc TOTALCASES global_data" by (rule desc_global_pipeline)
    then have "sorted_wrt (\<ge>) (map TOTALCASES global_data)" by (simp add: sorted_wrt_map)
    moreover have "\<forall>a\<in>set (top_cases global_data). \<forall>b\<in>set (drop 10 global_data).
         TOTALCASES b \<le> TOTALCASES a"
      unfolding top_cases_def using desc_take_drop [OF d] by blast
    ultimately show ?thesis by simp
  qed
  have 4: "map world_row.truncate (top_cases global_data) =
           take 10 (map strip_key
             (filter (\<lambda>r. COUNTRY r \<notin> set ships) (sort_values_desc t)))"
    if p: "global_pipeline country_gdp gdp_df_update country_area t = Inr global_data"
      and h: "distinct (map fst country_gdp) \<and> distinct (map fst gdp_df_update) \<and>
       distinct (map (\<lambda>r. strip_ws (fst r)) country_area)"
  proof -
    from h have "map world_row.truncate global_data =
        map strip_key (filter (\<lambda>r. COUNTRY r \<notin> set ships) (sort_values_desc t))"
      by (intro truncate_global_pipeline [OF p]) simp_all
    then show ?thesis by (simp add: top_cases_def take_map [symmetric])
  qed
  from 1 2 3 4 show ?thesis by blast
qed

theorem top_cases_first_ten_witness:
  "global_pipeline [] [] [] world_table_example =
     Inr (map add_density (merge_country_area []
       [rate_example ''India'' 1000 NaN, rate_example ''Peru'' 100 NaN])) \<and>
   sorted_wrt (\<ge>) (map TOTALCASES (map add_density (merge_country_area []
       [rate_example ''India'' 1000 NaN, rate_example ''Peru'' 100 NaN]))) \<and>
   map world_row.truncate (top_cases (map add_density (merge_country_area []
       [rate_example ''India'' 1000 NaN, rate_example ''Peru'' 100 NaN]))) =
     [world_example ''India'' 1000 0 0 0 0, world_example ''Peru'' 100 0 0 0 0]"
proof -
  let ?out = "map add_density (merge_country_area []
       [rate_example ''India'' 1000 NaN, rate_example ''Peru'' 100 NaN])"
  have e: "global_pipeline [] [] [] world_table_example = Inr ?out"
    by (rule world_table_example_run)
  have h: "distinct (map fst ([] :: aux_table)) \<and> distinct (map fst ([] :: aux_table)) \<and>
       distinct (map (\<lambda>r. strip_ws (fst r)) ([] :: aux_table))" by simp
  from top_cases_first_ten [of world_table_example "[]" "[]" "[]" ?out] e h
  have s: "sorted_wrt (\<ge>) (map TOTALCASES ?out)"
    and f: "map world_row.truncate (top_cases ?out) =
           take 10 (map strip_key
             (filter (\<lambda>r. COUNTRY r \<notin> set ships) (sort_values_desc world_table_example)))"
    by blast+
  have "take 10 (map strip_key
      (filter (\<lambda>r. COUNTRY r \<notin> set ships) (sort_values_desc world_table_example))) =
      [strip_key (world_example ''India'' 1000 0 0 0 0), strip_key (world_example ''Peru'' 100 0 0 0 0)]"
    by (simp add: world_table_example_sorted world_example_fields ships_def)
  moreover have "strip_key (world_example ''India'' 1000 0 0 0 0) = world_example ''India'' 1000 0 0 0 0"
    and "strip_key (world_example ''Peru'' 100 0 0 0 0) = world_example ''Peru'' 100 0 0 0 0"
    by (simp_all add: strip_key_def world_example_def strip_defs)
  ultimately have v: "map world_row.truncate (top_cases ?out) =
     [world_example ''India'' 1000 0 0 0 0, world_example ''Peru'' 100 0 0 0 0]"
    using f by simp
  from e s v show ?thesis by blast
qed

text \<open>
  C10 as stated takes the first ten records of the In[13] ordering themselves. The ships
  are excluded in between, so a ship that ranks among the first ten of that ordering is
  not in \<open>top_cases\<close>, and the records after it move up.
\<close>

theorem top_cases_counterexample:
  "map COUNTRY (take 10 (sort_values_desc world_table_example)) =
     [''India'', ''Diamond Princess'', ''Peru'', ''MS Zaandam''] \<and>
   map_sum id (\<lambda>global_data. map COUNTRY (top_cases global_data))
     (global_pipeline [] [] [] world_table_example) = Inr [''India'', ''Peru'']"
  by (simp add: world_table_example_sorted world_example_fields world_table_example_run run_simps)

text \<open>
  Claim C7, as the code has it. The step succeeds exactly when both ship names are keys
  of the table (\<^verbatim>\<open>drop\<close> raises KeyError otherwise), and it then removes the rows
  whose key is exactly one of the two names and no other row, keeping the order. It runs
  after the two GDP merges and before the keys are stripped and the land-area table is
  merged: the keys of the final table are the stripped keys of the rows that were not
  removed.
\<close>

theorem drop_ships_exact:
  "(drop_ships t = Inr t' \<longleftrightarrow>
      ''Diamond Princess'' \<in> COUNTRY ` set t \<and> ''MS Zaandam'' \<in> COUNTRY ` set t \<and>
      t' = filter (\<lambda>r. COUNTRY r \<noteq> ''Diamond Princess'' \<and> COUNTRY r \<noteq> ''MS Zaandam'') t) \<and>
   (global_pipeline country_gdp gdp_df_update country_area w = Inr global_data \<longrightarrow>
      COUNTRY ` set global_data =
        strip_ws ` (COUNTRY ` set w - {''Diamond Princess'', ''MS Zaandam''}))"
proof -
  have 1: "drop_ships t = Inr t' \<longleftrightarrow>
      ''Diamond Princess'' \<in> COUNTRY ` set t \<and> ''MS Zaandam'' \<in> COUNTRY ` set t \<and>
      t' = filter (\<lambda>r. COUNTRY r \<noteq> ''Diamond Princess'' \<and> COUNTRY r \<noteq> ''MS Zaandam'') t"
    by (simp add: drop_ships_def drop_labels_Inr ships_def)
  have 2: "COUNTRY ` set global_data =
      strip_ws ` (COUNTRY ` set w - {''Diamond Princess'', ''MS Zaandam''})"
    if "global_pipeline country_gdp gdp_df_update country_area w = Inr global_data"
    using keys_global_pipeline [OF that] by (simp add: ships_def)
  from 1 2 show ?thesis by blast
qed

theorem drop_ships_exact_witness:
  "global_pipeline [] [] [] world_table_example =
     Inr (map add_density (merge_country_area []
       [rate_example ''India'' 1000 NaN, rate_example ''Peru'' 100 NaN])) \<and>
   map COUNTRY (map add_density (merge_country_area []
       [rate_example ''India'' 1000 NaN, rate_example ''Peru'' 100 NaN])) = [''India'', ''Peru''] \<and>
   drop_ships [rate_example ''Peru'' 100 NaN, rate_example ''Diamond Princess'' 712 NaN,
       rate_example ''MS Zaandam'' 9 NaN] = Inr [rate_example ''Peru'' 100 NaN] \<and>
   drop_ships [rate_example ''Peru'' 100 NaN, rate_example ''Diamond Princess'' 712 NaN] =
     Inl KeyError"
proof -
  let ?out = "map add_density (merge_country_area []
       [rate_example ''India'' 1000 NaN, rate_example ''Peru'' 100 NaN])"
  let ?t = "[rate_example ''Peru'' 100 NaN, rate_example ''Diamond Princess'' 712 NaN,
       rate_example ''MS Zaandam'' 9 NaN]"
  have e: "global_pipeline [] [] [] world_table_example = Inr ?out"
    by (rule world_table_example_run)
  have k: "map COUNTRY ?out = [''India'', ''Peru'']"
    by (simp add: run_simps)
  have c: "map COUNTRY ?t = [''Peru'', ''Diamond Princess'', ''MS Zaandam'']"
    by (simp add: rate_example_fields)
  have f: "filter (\<lambda>r. COUNTRY r \<noteq> ''Diamond Princess'' \<and> COUNTRY r \<noteq> ''MS Zaandam'') ?t =
      [rate_example ''Peru'' 100 NaN]"
    by (simp add: rate_example_fields)
  have m1: "''Diamond Princess'' \<in> COUNTRY ` set ?t" by (simp add: rate_example_fields)
  have m2: "''MS Zaandam'' \<in> COUNTRY ` set ?t" by (simp add: rate_example_fields)
  have iff: "drop_ships ?t = Inr [rate_example ''Peru'' 100 NaN] \<longleftrightarrow>
      ''Diamond Princess'' \<in> COUNTRY ` set ?t \<and> ''MS Zaandam'' \<in> COUNTRY ` set ?t \<and>
      [rate_example ''Peru'' 100 NaN] =
        filter (\<lambda>r. COUNTRY r \<noteq> ''Diamond Princess'' \<and> COUNTRY r \<noteq> ''MS Zaandam'') ?t"
    using drop_ships_exact [of ?t "[rate_example ''Peru'' 100 NaN]" "[]" "[]" "[]" "[]" "[]"]
    by (rule conjunct1)
  have d: "drop_ships ?t = Inr [rate_example ''Peru'' 100 NaN]"
    by (rule iffD2 [OF iff]) (intro conjI m1 m2 f [symmetric])
  have n: "drop_ships [rate_example ''Peru'' 100 NaN, rate_example ''Diamond Princess'' 712 NaN] =
     Inl KeyError"
    by (simp add: run_simps)
  from e k d n show ?thesis by blast
qed

text \<open>
  C7 places the exclusion after all merges. The code excludes before the strip and the
  land-area merge of In[25], and the two orders differ: a row keyed \<^verbatim>\<open>"MS Zaandam "\<close>
  is not an exact match, survives the exclusion and is then stripped to the ship's name,
  so the final table has a row whose key is on the exclusion list; excluding after the
  last merge would have removed it.
\<close>

theorem drop_after_merges_counterexample:
  "map_sum id (map COUNTRY) (global_pipeline [] [] [] ships_table_example) =
     Inr [''MS Zaandam''] \<and>
   map_sum id (map COUNTRY) (spec_drop_after_merges [] [] [] ships_table_example) = Inr []"
  by (simp add: global_pipeline_def spec_drop_after_merges_def ships_table_example_sorted)
    (simp add: ships_table_example_def run_simps)

section \<open>The repair of the eight states: properties\<close>

lemma STATE_null_row: "STATE (null_row l) = l"
  by (simp add: null_row_def)

lemma at_set_ensure:
  "at_set l w t = map (\<lambda>r. if STATE r = l then w r else r) (ensure_row l t)"
proof (cases "l \<in> set (map STATE t)")
  case True
  then show ?thesis by (simp add: at_set_def ensure_row_def)
next
  case False
  then have "\<forall>r\<in>set t. STATE r \<noteq> l" by auto
  then have "map (\<lambda>r. if STATE r = l then w r else r) t = t" by (simp add: map_idI)
  with False show ?thesis by (simp add: at_set_def ensure_row_def STATE_null_row)
qed

lemma ensure_row_present: "l \<in> set (map STATE (ensure_row l t))"
  by (simp add: ensure_row_def STATE_null_row)

lemma ensure_row_idem: "l \<in> set (map STATE t) \<Longrightarrow> ensure_row l t = t"
  by (simp add: ensure_row_def)

lemma map_STATE_ensure_row:
  "map STATE (ensure_row l t) = map STATE t @ (if l \<in> set (map STATE t) then [] else [l])"
  by (simp add: ensure_row_def STATE_null_row)

lemma distinct_ensure_row: "distinct (map STATE t) \<Longrightarrow> distinct (map STATE (ensure_row l t))"
  by (simp add: map_STATE_ensure_row)

lemma unique_row:
  assumes "distinct (map STATE t)" and "l \<in> set (map STATE t)"
  obtains r0 where "filter (\<lambda>r. STATE r = l) t = [r0]" and "STATE r0 = l"
    and "\<forall>r\<in>set t. STATE r = l \<longrightarrow> r = r0"
proof -
  from assms(2) obtain x where x: "x \<in> set t" "STATE x = l" by auto
  then have "x \<in> set (filter (\<lambda>r. STATE r = l) t)" by simp
  then have ne: "filter (\<lambda>r. STATE r = l) t \<noteq> []"
    by (cases "filter (\<lambda>r. STATE r = l) t") simp_all
  from assms(1) have "filter (\<lambda>r. STATE r = l) t =
      (case find (\<lambda>r. STATE r = l) t of None \<Rightarrow> [] | Some r \<Rightarrow> [r])"
    by (rule filter_key_distinct)
  with ne obtain r0 where f: "filter (\<lambda>r. STATE r = l) t = [r0]"
    by (cases "find (\<lambda>r. STATE r = l) t") simp_all
  then have "r0 \<in> set (filter (\<lambda>r. STATE r = l) t)" by simp
  then have s: "STATE r0 = l" by simp
  have "r = r0" if "r \<in> set t" and "STATE r = l" for r
  proof -
    from that have "r \<in> set (filter (\<lambda>r. STATE r = l) t)" by simp
    with f show ?thesis by simp
  qed
  with f s that show ?thesis by blast
qed

lemma STATE_writes:
  "STATE (r\<lparr>us_row.TOTALRECOVERED := a\<rparr>) = STATE r"
  "STATE (r\<lparr>us_row.ACTIVECASES := b\<rparr>) = STATE r"
  "STATE (r\<lparr>us_rate_row.SURVIVAL_RATE := c\<rparr>) = STATE r"
  "STATE (repair_write rc ac r) = STATE r"
  by (simp_all add: repair_write_def)

lemma patch_state_apply:
  assumes d: "distinct (map STATE t)"
  shows "patch_state (l, rc, ac) t = Inr (apply_patch (l, rc, ac) t)"
proof -
  let ?t0 = "ensure_row l t"
  let ?w1 = "\<lambda>r. r\<lparr>us_row.TOTALRECOVERED := of_int64 rc\<rparr>"
  let ?w2 = "\<lambda>r. r\<lparr>us_row.ACTIVECASES := ac\<rparr>"
  let ?u1 = "\<lambda>r. if STATE r = l then ?w1 r else r"
  let ?u2 = "\<lambda>r. if STATE r = l then ?w2 r else r"
  let ?t1 = "map ?u1 ?t0"
  let ?t2 = "map ?u2 ?t1"
  have d0: "distinct (map STATE ?t0)" using d by (rule distinct_ensure_row)
  have p0: "l \<in> set (map STATE ?t0)" by (rule ensure_row_present)
  have s1: "map STATE ?t1 = map STATE ?t0" by (simp add: comp_def)
  have s2: "map STATE ?t2 = map STATE ?t0" by (simp add: comp_def)
  have t1: "at_set l ?w1 t = ?t1" by (rule at_set_ensure)
  have "at_set l ?w2 ?t1 = map ?u2 (ensure_row l ?t1)" by (rule at_set_ensure)
  moreover have "ensure_row l ?t1 = ?t1" using p0 s1 by (intro ensure_row_idem) simp
  ultimately have t2: "at_set l ?w2 ?t1 = ?t2" by simp
  from d0 p0 obtain r0 where f: "filter (\<lambda>r. STATE r = l) ?t0 = [r0]" and r0: "STATE r0 = l"
    and u: "\<forall>r\<in>set ?t0. STATE r = l \<longrightarrow> r = r0"
    by (rule unique_row)
  have "filter (\<lambda>r. STATE r = l) ?t2 = map (\<lambda>r. ?u2 (?u1 r)) (filter (\<lambda>r. STATE r = l) ?t0)"
    by (simp add: filter_map comp_def)
  with f have f2: "filter (\<lambda>r. STATE r = l) ?t2 = [?u2 (?u1 r0)]" by simp
  have "at_get l us_row.TOTALCASES ?t2 = Inr (us_row.TOTALCASES (?u2 (?u1 r0)))"
    by (simp only: at_get_def f2 list.case)
  moreover have "us_row.TOTALCASES (?u2 (?u1 r0)) = us_row.TOTALCASES r0" by simp
  ultimately have g: "at_get l us_row.TOTALCASES ?t2 = Inr (us_row.TOTALCASES r0)"
    by (simp only:)
  let ?w3 = "\<lambda>r. r\<lparr>us_rate_row.SURVIVAL_RATE := true_div (of_int64 rc) (us_row.TOTALCASES r0)\<rparr>"
  let ?u3 = "\<lambda>r. if STATE r = l then ?w3 r else r"
  have "at_set l ?w3 ?t2 = map ?u3 (ensure_row l ?t2)" by (rule at_set_ensure)
  moreover have "ensure_row l ?t2 = ?t2" using p0 s2 by (intro ensure_row_idem) simp
  ultimately have t3: "at_set l ?w3 ?t2 = map ?u3 ?t2" by simp
  have "map ?u3 ?t2 = map (\<lambda>r. if STATE r = l then repair_write rc ac r else r) ?t0"
  proof -
    have "?u3 (?u2 (?u1 r)) = (if STATE r = l then repair_write rc ac r else r)"
      if "r \<in> set ?t0" for r
    proof (cases "STATE r = l")
      case True
      with u that have "r = r0" by blast
      with True show ?thesis by (simp add: repair_write_def)
    next
      case False
      then show ?thesis by simp
    qed
    then show ?thesis by (simp add: comp_def)
  qed
  with t3 have fin: "at_set l ?w3 ?t2 = apply_patch (l, rc, ac) t" by (simp add: apply_patch_def)
  show ?thesis
    by (simp only: patch_state.simps Let_def t1 t2 g sum.case fin)
qed

lemma map_STATE_apply_patch:
  "map STATE (apply_patch p t) =
     map STATE t @ (if fst p \<in> set (map STATE t) then [] else [fst p])"
proof -
  have "map STATE (apply_patch p t) = map STATE (ensure_row (fst p) t)"
    by (simp add: apply_patch_def comp_def STATE_writes)
  then show ?thesis by (simp only: map_STATE_ensure_row)
qed

lemma distinct_apply_patch: "distinct (map STATE t) \<Longrightarrow> distinct (map STATE (apply_patch p t))"
  by (simp add: map_STATE_apply_patch)

lemma apply_patch_nth:
  assumes "i < length t"
  shows "apply_patch p t ! i =
     (if STATE (t ! i) = fst p then repair_write (fst (snd p)) (snd (snd p)) (t ! i) else t ! i)"
proof -
  from assms have "ensure_row (fst p) t ! i = t ! i"
    by (simp add: ensure_row_def nth_append)
  moreover from assms have "i < length (ensure_row (fst p) t)" by (simp add: ensure_row_def)
  ultimately show ?thesis by (simp add: apply_patch_def)
qed

lemma patch_states_fold:
  "distinct (map STATE t) \<Longrightarrow> patch_states ps t = Inr (fold apply_patch ps t)"
proof (induction ps arbitrary: t)
  case Nil
  show ?case by simp
next
  case (Cons p ps)
  obtain l rc ac where p: "p = (l, rc, ac)" by (cases p)
  from Cons.prems have "patch_state p t = Inr (apply_patch p t)"
    unfolding p by (rule patch_state_apply)
  moreover have "distinct (map STATE (apply_patch p t))"
    using Cons.prems by (rule distinct_apply_patch)
  ultimately show ?case using Cons.IH by simp
qed

lemma fold_apply_patch_STATE:
  "distinct (map fst ps) \<Longrightarrow>
   map STATE (fold apply_patch ps t) =
     map STATE t @ filter (\<lambda>l. l \<notin> set (map STATE t)) (map fst ps)"
proof (induction ps arbitrary: t)
  case Nil
  show ?case by simp
next
  case (Cons p ps)
  from Cons.prems have d: "distinct (map fst ps)" and n: "fst p \<notin> set (map fst ps)" by simp_all
  let ?t1 = "apply_patch p t"
  have s: "set (map STATE ?t1) = insert (fst p) (set (map STATE t))"
    by (auto simp: map_STATE_apply_patch)
  have "x \<notin> set (map STATE ?t1) \<longleftrightarrow> x \<notin> set (map STATE t)"
    if "x \<in> set (map fst ps)" for x
  proof -
    from that n have "x \<noteq> fst p" by blast
    then show ?thesis by (simp only: s) blast
  qed
  then have "filter (\<lambda>l. l \<notin> set (map STATE ?t1)) (map fst ps) =
      filter (\<lambda>l. l \<notin> set (map STATE t)) (map fst ps)"
    by (intro filter_cong refl) blast
  with Cons.IH [OF d, of ?t1] show ?case
    by (simp add: map_STATE_apply_patch)
qed

lemma fold_apply_patch_nth:
  "distinct (map fst ps) \<Longrightarrow> i < length t \<Longrightarrow>
   fold apply_patch ps t ! i =
     (case map_of ps (STATE (t ! i)) of
        None \<Rightarrow> t ! i
      | Some v \<Rightarrow> repair_write (fst v) (snd v) (t ! i))"
proof (induction ps arbitrary: t)
  case Nil
  show ?case by simp
next
  case (Cons p ps)
  from Cons.prems have d: "distinct (map fst ps)" and n: "fst p \<notin> set (map fst ps)" by simp_all
  let ?t1 = "apply_patch p t"
  have len: "i < length ?t1"
  proof -
    have "length ?t1 = length (map STATE ?t1)" by simp
    also have "\<dots> \<ge> length t" by (simp only: map_STATE_apply_patch) simp
    finally show ?thesis using Cons.prems(2) by simp
  qed
  have nth: "?t1 ! i =
      (if STATE (t ! i) = fst p then repair_write (fst (snd p)) (snd (snd p)) (t ! i) else t ! i)"
    using Cons.prems(2) by (rule apply_patch_nth)
  then have st: "STATE (?t1 ! i) = STATE (t ! i)" by (simp add: STATE_writes)
  have ih: "fold apply_patch ps ?t1 ! i =
     (case map_of ps (STATE (t ! i)) of
        None \<Rightarrow> ?t1 ! i
      | Some v \<Rightarrow> repair_write (fst v) (snd v) (?t1 ! i))"
    using Cons.IH [OF d len] by (simp only: st)
  show ?case
  proof (cases "STATE (t ! i) = fst p")
    case True
    with n have "map_of ps (STATE (t ! i)) = None" by (simp add: map_of_eq_None_iff)
    with ih nth True show ?thesis by (cases p) simp
  next
    case False
    with nth have e: "?t1 ! i = t ! i" by simp
    from False have m: "map_of (p # ps) (STATE (t ! i)) = map_of ps (STATE (t ! i))"
      by (cases p) simp
    have "fold apply_patch (p # ps) t ! i = fold apply_patch ps ?t1 ! i" by simp
    also have "\<dots> = (case map_of ps (STATE (t ! i)) of
        None \<Rightarrow> ?t1 ! i
      | Some v \<Rightarrow> repair_write (fst v) (snd v) (?t1 ! i))" by (rule ih)
    also have "\<dots> = (case map_of ps (STATE (t ! i)) of
        None \<Rightarrow> t ! i
      | Some v \<Rightarrow> repair_write (fst v) (snd v) (t ! i))" by (simp only: e)
    also have "\<dots> = (case map_of (p # ps) (STATE (t ! i)) of
        None \<Rightarrow> t ! i
      | Some v \<Rightarrow> repair_write (fst v) (snd v) (t ! i))" by (simp only: m)
    finally show ?thesis .
  qed
qed

lemma map_of_scraped:
  "map_of (map (\<lambda>s. (s, f s)) xs) x = (if x \<in> set xs then Some (f x) else None)"
  by (induction xs) auto

lemma repaired_states_distinct: "distinct repaired_states"
  by (simp add: repaired_states_def)

lemma us_example_fields:
  "STATE (us_add_rates (us_example n c d r t)) = n"
  "us_row.TOTALCASES (us_add_rates (us_example n c d r t)) = c"
  by (simp_all add: us_add_rates_def us_example_def row_defs)

text \<open>
  Claim C9. On a table with one record per state, In[54] succeeds; a record of a state
  that is not one of the eight is unchanged; the record of one of the eight is the old
  record with TOTALRECOVERED, ACTIVECASES and SURVIVAL_RATE written and nothing else, the
  SURVIVAL_RATE being the scraped recovered count divided by the TOTALCASES of that
  record; the records keep their places, and when the eight states are all in the table
  no record is added (a state that is missing gets a new record at the end).
\<close>

theorem repair_states_frame:
  assumes "distinct (map STATE t)"
  shows "\<exists>t'. repair_states scraped t = Inr t' \<and>
    map STATE t' = map STATE t @ filter (\<lambda>s. s \<notin> set (map STATE t)) repaired_states \<and>
    (set repaired_states \<subseteq> set (map STATE t) \<longrightarrow> length t' = length t) \<and>
    (\<forall>i<length t.
       (STATE (t ! i) \<notin> set repaired_states \<longrightarrow> t' ! i = t ! i) \<and>
       (STATE (t ! i) \<in> set repaired_states \<longrightarrow>
          t' ! i = (t ! i)
            \<lparr>us_row.TOTALRECOVERED := of_int64 (fst (scraped (STATE (t ! i)))),
             us_row.ACTIVECASES := snd (scraped (STATE (t ! i))),
             us_rate_row.SURVIVAL_RATE :=
               true_div (of_int64 (fst (scraped (STATE (t ! i))))) (us_row.TOTALCASES (t ! i))\<rparr>))"
proof -
  let ?ps = "map (\<lambda>s. (s, fst (scraped s), snd (scraped s))) repaired_states"
  let ?t' = "fold apply_patch ?ps t"
  have fst: "map fst ?ps = repaired_states" by (simp add: comp_def)
  then have dp: "distinct (map fst ?ps)" using repaired_states_distinct by simp
  have run: "repair_states scraped t = Inr ?t'"
    unfolding repair_states_def using assms by (rule patch_states_fold)
  have keys: "map STATE ?t' = map STATE t @ filter (\<lambda>s. s \<notin> set (map STATE t)) repaired_states"
    using fold_apply_patch_STATE [OF dp, of t] by (simp only: fst)
  have len: "length ?t' = length t" if "set repaired_states \<subseteq> set (map STATE t)"
  proof -
    from that have "filter (\<lambda>s. s \<notin> set (map STATE t)) repaired_states = []"
      by (auto simp: filter_empty_conv)
    with keys have "map STATE ?t' = map STATE t" by simp
    then have "length (map STATE ?t') = length (map STATE t)" by simp
    then show ?thesis by simp
  qed
  have rows: "(STATE (t ! i) \<notin> set repaired_states \<longrightarrow> ?t' ! i = t ! i) \<and>
       (STATE (t ! i) \<in> set repaired_states \<longrightarrow>
          ?t' ! i = (t ! i)
            \<lparr>us_row.TOTALRECOVERED := of_int64 (fst (scraped (STATE (t ! i)))),
             us_row.ACTIVECASES := snd (scraped (STATE (t ! i))),
             us_rate_row.SURVIVAL_RATE :=
               true_div (of_int64 (fst (scraped (STATE (t ! i))))) (us_row.TOTALCASES (t ! i))\<rparr>)"
    if "i < length t" for i
  proof -
    have "map_of ?ps (STATE (t ! i)) =
        (if STATE (t ! i) \<in> set repaired_states then Some (scraped (STATE (t ! i))) else None)"
      by (simp add: map_of_scraped)
    with fold_apply_patch_nth [OF dp that] show ?thesis
      by (simp add: repair_write_def)
  qed
  from run keys len rows show ?thesis by blast
qed

theorem repair_states_frame_witness:
  "\<exists>t'. repair_states scraped_example us_table_example = Inr t' \<and>
     t' ! 1 = us_table_example ! 1 \<and>
     us_row.TOTALRECOVERED (t' ! 0) = Fin 50 \<and>
     us_rate_row.SURVIVAL_RATE (t' ! 0) = Fin (1 / 2) \<and>
     length t' = 9"
proof -
  let ?t = us_table_example
  have d: "distinct (map STATE ?t)"
    by (simp add: us_table_example_def us_example_fields)
  from repair_states_frame [OF d, of scraped_example] obtain t' where
    run: "repair_states scraped_example ?t = Inr t'" and
    keys: "map STATE t' = map STATE ?t @ filter (\<lambda>s. s \<notin> set (map STATE ?t)) repaired_states" and
    rows: "\<forall>i<length ?t.
       (STATE (?t ! i) \<notin> set repaired_states \<longrightarrow> t' ! i = ?t ! i) \<and>
       (STATE (?t ! i) \<in> set repaired_states \<longrightarrow>
          t' ! i = (?t ! i)
            \<lparr>us_row.TOTALRECOVERED := of_int64 (fst (scraped_example (STATE (?t ! i)))),
             us_row.ACTIVECASES := snd (scraped_example (STATE (?t ! i))),
             us_rate_row.SURVIVAL_RATE :=
               true_div (of_int64 (fst (scraped_example (STATE (?t ! i)))))
                 (us_row.TOTALCASES (?t ! i))\<rparr>)"
    by blast
  have len: "length ?t = 2" by (simp add: us_table_example_def)
  have s0: "STATE (?t ! 0) = ''Hawaii''" and s1: "STATE (?t ! 1) = ''Texas''"
    and c0: "us_row.TOTALCASES (?t ! 0) = Fin 100"
    by (simp_all add: us_table_example_def us_example_fields)
  have in0: "''Hawaii'' \<in> set repaired_states" and out1: "''Texas'' \<notin> set repaired_states"
    by (simp_all add: repaired_states_def)
  from rows len s1 out1 have r1: "t' ! 1 = ?t ! 1" by simp
  from rows len s0 in0 have r0: "t' ! 0 = (?t ! 0)
            \<lparr>us_row.TOTALRECOVERED := of_int64 (fst (scraped_example ''Hawaii'')),
             us_row.ACTIVECASES := snd (scraped_example ''Hawaii''),
             us_rate_row.SURVIVAL_RATE :=
               true_div (of_int64 (fst (scraped_example ''Hawaii''))) (Fin 100)\<rparr>"
    using c0 by simp
  then have v: "us_row.TOTALRECOVERED (t' ! 0) = Fin 50 \<and>
      us_rate_row.SURVIVAL_RATE (t' ! 0) = Fin (1 / 2)"
    by (simp add: scraped_example_def of_int64_def)
  have "map STATE ?t = [''Hawaii'', ''Texas'']"
    by (simp add: us_table_example_def us_example_fields)
  with keys have "map STATE t' = [''Hawaii'', ''Texas'', ''South Carolina'', ''Indiana'',
      ''Wisconsin'', ''Alabama'', ''Louisiana'', ''Nebraska'', ''Maine'']"
    by (simp add: repaired_states_def)
  then have "length (map STATE t') = 9" by simp
  then have n: "length t' = 9" by simp
  from run r1 v n show ?thesis by blast
qed

end
